theory Spec2Isabelle
  imports Complex_Main "HOL-Library.Multiset" "HOL-Library.Char_ord" "HOL-Library.List_Lexorder"
begin

section \<open>JavaScript numbers and their comparisons\<close>

text \<open>
  A JavaScript number is a finite value, one of the two infinities, or NaN. Every finite
  double is a rational, and the comparisons of finite doubles are those of the rationals,
  so a finite number is modelled by a \<^typ>\<open>rat\<close>. Arithmetic on numbers rounds its exact
  result to a double; it is defined with the statistics, the one place that adds and
  divides.
\<close>

datatype number = Finite rat | Infinity | NegInfinity | NaN

text \<open>\<^verbatim>\<open>a <= b\<close> on numbers: false as soon as one side is NaN.\<close>

fun js_le :: "number \<Rightarrow> number \<Rightarrow> bool" where
  "js_le NaN _ = False"
| "js_le _ NaN = False"
| "js_le NegInfinity _ = True"
| "js_le _ Infinity = True"
| "js_le (Finite a) (Finite b) = (a \<le> b)"
| "js_le _ _ = False"

text \<open>\<^verbatim>\<open>a < b\<close> on numbers.\<close>

fun js_lt :: "number \<Rightarrow> number \<Rightarrow> bool" where
  "js_lt NaN _ = False"
| "js_lt _ NaN = False"
| "js_lt (Finite a) (Finite b) = (a < b)"
| "js_lt NegInfinity NegInfinity = False"
| "js_lt NegInfinity _ = True"
| "js_lt Infinity _ = False"
| "js_lt _ Infinity = True"
| "js_lt _ _ = False"

text \<open>\<^verbatim>\<open>a >= b\<close> and \<^verbatim>\<open>a > b\<close> are the same comparisons with the operands swapped.\<close>

definition js_ge :: "number \<Rightarrow> number \<Rightarrow> bool" where
  "js_ge a b = js_le b a"

definition js_gt :: "number \<Rightarrow> number \<Rightarrow> bool" where
  "js_gt a b = js_lt b a"


section \<open>The data model of the dashboard\<close>

text \<open>
  One row of a \<^verbatim>\<open>market_data\<close> message, with the field names the components read
  (\<^verbatim>\<open>stock.current_price\<close>, \<^verbatim>\<open>stock.volume\<close>, ...). The fields are the finite numbers
  and the string that the JSON of a well-formed message carries.
\<close>

record snapshot =
  symbol :: string
  current_price :: rat
  percent_change :: rat
  volume :: int
  trade_count :: int
  high :: rat
  low :: rat
  vwap :: rat
  std_dev :: rat

text \<open>
  \<^verbatim>\<open>filterConfig\<close> of App.js. The bounds are JavaScript numbers: the initial state and the
  reset button store \<^verbatim>\<open>Infinity\<close> in \<^verbatim>\<open>maxPrice\<close> and \<^verbatim>\<open>maxVolume\<close>. \<^verbatim>\<open>displayCount\<close> is
  the integer that \<^verbatim>\<open>parseInt\<close> reads from the page-size selector.
\<close>

record filter_config =
  minPrice :: number
  maxPrice :: number
  minVolume :: number
  maxVolume :: number
  minTradeCount :: number
  displayCount :: int

text \<open>
  \<^verbatim>\<open>sortConfig\<close> of App.js: \<^verbatim>\<open>key\<close> is one of the column keys of StockTable.js, and
  \<^verbatim>\<open>direction\<close> is \<^verbatim>\<open>'asc'\<close> or \<^verbatim>\<open>'desc'\<close> (\<^verbatim>\<open>handleSort\<close> stores nothing else).
\<close>

datatype sort_key =
  Symbol | Current_price | Percent_change | Trade_count | Volume | High | Low | Vwap | Std_dev

datatype sort_direction = Asc | Desc

record sort_config =
  key :: sort_key
  direction :: sort_direction

text \<open>The value of \<^verbatim>\<open>stock[sortConfig.key]\<close>: a string for the symbol, a number otherwise.\<close>

datatype field_value = Str string | Number rat

fun sort_field :: "sort_key \<Rightarrow> snapshot \<Rightarrow> field_value" where
  "sort_field Symbol s = Str (symbol s)"
| "sort_field Current_price s = Number (current_price s)"
| "sort_field Percent_change s = Number (percent_change s)"
| "sort_field Trade_count s = Number (of_int (trade_count s))"
| "sort_field Volume s = Number (of_int (volume s))"
| "sort_field High s = Number (high s)"
| "sort_field Low s = Number (low s)"
| "sort_field Vwap s = Number (vwap s)"
| "sort_field Std_dev s = Number (std_dev s)"

text \<open>
  \<^verbatim>\<open>a < b\<close> on two field values: numbers compare numerically, strings lexicographically
  by character code. The two operands of the comparator are read from the same field, so
  a string never meets a number; that case is given the value False.
\<close>

fun js_less :: "field_value \<Rightarrow> field_value \<Rightarrow> bool" where
  "js_less (Number a) (Number b) = (a < b)"
| "js_less (Str a) (Str b) = (a < b)"
| "js_less _ _ = False"

definition js_greater :: "field_value \<Rightarrow> field_value \<Rightarrow> bool" where
  "js_greater a b = js_less b a"

section \<open>Array operations of the language\<close>

text \<open>
  \<^verbatim>\<open>Array.prototype.sort(cmp)\<close>. ECMAScript requires the sort to be stable, and for a
  consistent comparator this fixes the result: \<^verbatim>\<open>cmp(a, b) > 0\<close> puts \<^verbatim>\<open>b\<close> first, and
  otherwise \<^verbatim>\<open>a\<close>, which came first, stays first. The model is the insertion sort that does
  exactly this; \<^verbatim>\<open>array_sort_unique\<close> below shows that no other stable sort differs from it.
\<close>

fun insert_by :: "('a \<Rightarrow> 'a \<Rightarrow> rat) \<Rightarrow> 'a \<Rightarrow> 'a list \<Rightarrow> 'a list" where
  "insert_by cmp x [] = [x]"
| "insert_by cmp x (y # ys) = (if cmp x y \<le> 0 then x # y # ys else y # insert_by cmp x ys)"

definition array_sort :: "('a \<Rightarrow> 'a \<Rightarrow> rat) \<Rightarrow> 'a list \<Rightarrow> 'a list" where
  "array_sort cmp xs = foldr (insert_by cmp) xs []"

text \<open>
  \<^verbatim>\<open>Array.prototype.slice(start, end)\<close> for integer arguments: a negative index counts from
  the end of the array, and both indices are clamped to the array.
\<close>

definition relative_index :: "int \<Rightarrow> nat \<Rightarrow> nat" where
  "relative_index i len = (if i < 0 then nat (max (int len + i) 0) else min (nat i) len)"

definition array_slice :: "'a list \<Rightarrow> int \<Rightarrow> int \<Rightarrow> 'a list" where
  "array_slice xs start fin =
     (let k = relative_index start (length xs);
          final = relative_index fin (length xs)
      in take (final - k) (drop k xs))"

section \<open>The derived view (App.js, the filter-and-sort effect)\<close>

text \<open>The predicate passed to \<^verbatim>\<open>filtered.filter\<close>.\<close>

definition passes_filter :: "filter_config \<Rightarrow> snapshot \<Rightarrow> bool" where
  "passes_filter filterConfig stock =
     (js_ge (Finite (current_price stock)) (minPrice filterConfig) \<and>
      js_le (Finite (current_price stock)) (maxPrice filterConfig) \<and>
      js_ge (Finite (of_int (volume stock))) (minVolume filterConfig) \<and>
      js_le (Finite (of_int (volume stock))) (maxVolume filterConfig) \<and>
      js_ge (Finite (of_int (trade_count stock))) (minTradeCount filterConfig))"

text \<open>The comparator passed to \<^verbatim>\<open>filtered.sort\<close>.\<close>

definition compare_stocks :: "sort_config \<Rightarrow> snapshot \<Rightarrow> snapshot \<Rightarrow> rat" where
  "compare_stocks sortConfig a b =
     (if js_less (sort_field (key sortConfig) a) (sort_field (key sortConfig) b)
      then (if direction sortConfig = Asc then - 1 else 1)
      else if js_greater (sort_field (key sortConfig) a) (sort_field (key sortConfig) b)
      then (if direction sortConfig = Asc then 1 else - 1)
      else 0)"

text \<open>
  The three steps of the effect, in the order of the source, as functions on lists. The
  copy \<^verbatim>\<open>[...stocks]\<close> that precedes them does not change the list; the store model at the
  end of the definitions keeps it, with the sort in place.
\<close>

definition filter_step :: "filter_config \<Rightarrow> snapshot list \<Rightarrow> snapshot list" where
  "filter_step filterConfig stocks = filter (passes_filter filterConfig) stocks"

definition sort_step :: "sort_config \<Rightarrow> snapshot list \<Rightarrow> snapshot list" where
  "sort_step sortConfig filtered = array_sort (compare_stocks sortConfig) filtered"

definition truncate_step :: "filter_config \<Rightarrow> snapshot list \<Rightarrow> snapshot list" where
  "truncate_step filterConfig filtered = array_slice filtered 0 (displayCount filterConfig)"

text \<open>The value the effect hands to \<^verbatim>\<open>setFilteredStocks\<close>.\<close>

definition compute :: "snapshot list \<Rightarrow> sort_config \<Rightarrow> filter_config \<Rightarrow> snapshot list" where
  "compute stocks sortConfig filterConfig =
     truncate_step filterConfig (sort_step sortConfig (filter_step filterConfig stocks))"


text \<open>The initial \<^verbatim>\<open>filterConfig\<close> and \<^verbatim>\<open>sortConfig\<close> of App.js.\<close>

definition initial_filterConfig :: filter_config where
  "initial_filterConfig =
     \<lparr>minPrice = Finite 0, maxPrice = Infinity, minVolume = Finite 0, maxVolume = Infinity,
      minTradeCount = Finite 0, displayCount = 50\<rparr>"

definition initial_sortConfig :: sort_config where
  "initial_sortConfig = \<lparr>key = Trade_count, direction = Desc\<rparr>"

text \<open>
  The filter as the specification words it: a maximum is a finite ceiling or no ceiling
  at all, and a value is within a range when it lies between the two bounds, both
  included.
\<close>

datatype max_bound = At_most rat | No_ceiling

fun max_number :: "max_bound \<Rightarrow> number" where
  "max_number (At_most r) = Finite r"
| "max_number No_ceiling = Infinity"

fun in_range :: "rat \<Rightarrow> max_bound \<Rightarrow> rat \<Rightarrow> bool" where
  "in_range lo (At_most hi) x = (lo \<le> x \<and> x \<le> hi)"
| "in_range lo No_ceiling x = (lo \<le> x)"

text \<open>A row for examples: only the fields the filter and the comparator read vary.\<close>

definition row :: "string \<Rightarrow> rat \<Rightarrow> int \<Rightarrow> int \<Rightarrow> snapshot" where
  "row name price vol trades =
     \<lparr>symbol = name, current_price = price, percent_change = 0, volume = vol,
      trade_count = trades, high = price, low = price, vwap = price, std_dev = 0\<rparr>"

text \<open>
  Rows for examples: 100 rows that pass a minimum price of 10, none of them in its place,
  after ten rows that do not pass it and have the highest trade counts.
\<close>

definition example_rows :: "snapshot list" where
  "example_rows =
     map (\<lambda>i. row ''F'' (of_nat i) 5 (1000 + int i)) [0..<10] @
     map (\<lambda>i. row ''S'' (of_nat i) 5 (int i))
       (concat (map (\<lambda>k. [2 * k, 2 * k + 1]) (rev [5..<54])) @ [108, 109])"

section \<open>The transport (hooks/useWebSocket.js)\<close>

text \<open>
  The hook keeps three refs (\<^verbatim>\<open>wsRef\<close>, \<^verbatim>\<open>reconnectTimeoutRef\<close>, \<^verbatim>\<open>reconnectCountRef\<close>) and
  two pieces of state (\<^verbatim>\<open>lastMessage\<close>, \<^verbatim>\<open>connectionStatus\<close>). Its handlers run when the
  browser fires an event on a socket or a timer, so the model also holds what the browser
  holds: every WebSocket constructed so far with its \<^verbatim>\<open>readyState\<close>, and every timer set so
  far with its delay in milliseconds. A socket or a timer is named by its position in
  these lists. \<^verbatim>\<open>url_ok\<close> says whether \<^verbatim>\<open>new WebSocket(url)\<close> accepts the URL; it throws
  otherwise.
\<close>

datatype ready_state = CONNECTING | OPEN | CLOSING | CLOSED

datatype connection_status = Status_connecting | Status_connected | Status_disconnected | Status_error

datatype timer_state = Pending | Fired | Cleared

record transport =
  url_ok :: bool
  sockets :: "ready_state list"
  timers :: "(nat \<times> timer_state) list"
  wsRef :: "nat option"
  reconnectTimeoutRef :: "nat option"
  reconnectCountRef :: nat
  connectionStatus :: connection_status
  lastMessage :: "string option"

text \<open>
  \<^verbatim>\<open>connect\<close>: the constructor either returns a socket in state CONNECTING, which is stored
  in \<^verbatim>\<open>wsRef\<close>, or throws, and the \<^verbatim>\<open>catch\<close> block sets the status to \<^verbatim>\<open>'error'\<close>.
\<close>

definition connect :: "transport \<Rightarrow> transport" where
  "connect w =
     (if url_ok w
      then w\<lparr>sockets := sockets w @ [CONNECTING], wsRef := Some (length (sockets w))\<rparr>
      else w\<lparr>connectionStatus := Status_error\<rparr>)"

definition onopen :: "transport \<Rightarrow> transport" where
  "onopen w = w\<lparr>connectionStatus := Status_connected, reconnectCountRef := 0\<rparr>"

definition onmessage :: "string \<Rightarrow> transport \<Rightarrow> transport" where
  "onmessage data w = w\<lparr>lastMessage := Some data\<rparr>"

text \<open>
  \<^verbatim>\<open>Math.min(1000 * Math.pow(2, reconnectCountRef.current), 30000)\<close>, in milliseconds. The
  power is exact in a double up to the counter 1023 and \<^verbatim>\<open>Infinity\<close> beyond, where the
  minimum is 30000 as well, so the natural numbers give the same value for every counter.
\<close>

definition reconnect_timeout :: "nat \<Rightarrow> nat" where
  "reconnect_timeout reconnectCount = min (1000 * 2 ^ reconnectCount) 30000"

text \<open>
  \<^verbatim>\<open>onclose\<close> sets the status, computes the delay from the counter and sets a timer, whose
  id it stores in \<^verbatim>\<open>reconnectTimeoutRef\<close>. The callback of the timer increments the counter
  and calls \<^verbatim>\<open>connect\<close>.
\<close>

definition onclose :: "transport \<Rightarrow> transport" where
  "onclose w =
     (let timeout = reconnect_timeout (reconnectCountRef w)
      in w\<lparr>connectionStatus := Status_disconnected,
            timers := timers w @ [(timeout, Pending)],
            reconnectTimeoutRef := Some (length (timers w))\<rparr>)"

definition timer_callback :: "transport \<Rightarrow> transport" where
  "timer_callback w = connect (w\<lparr>reconnectCountRef := reconnectCountRef w + 1\<rparr>)"

definition onerror :: "transport \<Rightarrow> transport" where
  "onerror w = w\<lparr>connectionStatus := Status_error\<rparr>"

text \<open>
  What the browser does for \<^verbatim>\<open>socket.close()\<close> and \<^verbatim>\<open>clearTimeout(id)\<close>: a socket that is
  connecting or open starts closing (its close event comes later), and a pending timer is
  cancelled.
\<close>

definition socket_close :: "nat \<Rightarrow> transport \<Rightarrow> transport" where
  "socket_close i w =
     (if i < length (sockets w) \<and> (sockets w ! i = CONNECTING \<or> sockets w ! i = OPEN)
      then w\<lparr>sockets := (sockets w)[i := CLOSING]\<rparr> else w)"

definition clearTimeout :: "nat \<Rightarrow> transport \<Rightarrow> transport" where
  "clearTimeout t w =
     (if t < length (timers w) \<and> snd (timers w ! t) = Pending
      then w\<lparr>timers := (timers w)[t := (fst (timers w ! t), Cleared)]\<rparr> else w)"

text \<open>The cleanup function that the effect of the hook returns.\<close>

definition cleanup :: "transport \<Rightarrow> transport" where
  "cleanup w =
     (let w1 = (case wsRef w of Some i \<Rightarrow> socket_close i w | None \<Rightarrow> w)
      in case reconnectTimeoutRef w1 of Some t \<Rightarrow> clearTimeout t w1 | None \<Rightarrow> w1)"

text \<open>
  The events of the browser and of React. An event is possible only in some states: a
  socket opens once, while it is connecting; it delivers messages while it is open; it
  reports an error or closes while it is not yet closed; a timer fires while it is pending.
  \<^verbatim>\<open>step\<close> runs the handler of a possible event and is None for an impossible one.
\<close>

datatype event =
  Socket_open nat | Socket_message nat string | Socket_error nat | Socket_close nat
  | Timer_fires nat | Cleanup

fun step :: "transport \<Rightarrow> event \<Rightarrow> transport option" where
  "step w (Socket_open i) =
     (if i < length (sockets w) \<and> sockets w ! i = CONNECTING
      then Some (onopen (w\<lparr>sockets := (sockets w)[i := OPEN]\<rparr>)) else None)"
| "step w (Socket_message i data) =
     (if i < length (sockets w) \<and> sockets w ! i = OPEN
      then Some (onmessage data w) else None)"
| "step w (Socket_error i) =
     (if i < length (sockets w) \<and> sockets w ! i \<noteq> CLOSED
      then Some (onerror w) else None)"
| "step w (Socket_close i) =
     (if i < length (sockets w) \<and> sockets w ! i \<noteq> CLOSED
      then Some (onclose (w\<lparr>sockets := (sockets w)[i := CLOSED]\<rparr>)) else None)"
| "step w (Timer_fires t) =
     (if t < length (timers w) \<and> snd (timers w ! t) = Pending
      then Some (timer_callback (w\<lparr>timers := (timers w)[t := (fst (timers w ! t), Fired)]\<rparr>))
      else None)"
| "step w Cleanup = Some (cleanup w)"

fun run :: "transport \<Rightarrow> event list \<Rightarrow> transport option" where
  "run w [] = Some w"
| "run w (e # es) = (case step w e of None \<Rightarrow> None | Some w' \<Rightarrow> run w' es)"

text \<open>The state of the hook at its first render, and after its effect has called \<^verbatim>\<open>connect\<close>.\<close>

definition first_render :: "bool \<Rightarrow> transport" where
  "first_render ok =
     \<lparr>url_ok = ok, sockets = [], timers = [], wsRef = None, reconnectTimeoutRef = None,
      reconnectCountRef = 0, connectionStatus = Status_connecting, lastMessage = None\<rparr>"

definition mount :: "bool \<Rightarrow> transport" where
  "mount ok = connect (first_render ok)"

text \<open>The delays of the timers set so far, oldest first, and the number of closes in a trace.\<close>

definition delays :: "transport \<Rightarrow> nat list" where
  "delays w = map fst (timers w)"

fun is_close :: "event \<Rightarrow> bool" where
  "is_close (Socket_close i) = True"
| "is_close _ = False"

fun is_open :: "event \<Rightarrow> bool" where
  "is_open (Socket_open i) = True"
| "is_open _ = False"

text \<open>
  In a transport that has not been cleaned up, at most the newest socket is not closed, at
  most the newest timer is pending, and never both.
\<close>

definition live_socket :: "transport \<Rightarrow> bool" where
  "live_socket w = (\<exists>i < length (sockets w). sockets w ! i \<noteq> CLOSED)"

definition pending_timer :: "transport \<Rightarrow> bool" where
  "pending_timer w = (\<exists>t < length (timers w). snd (timers w ! t) = Pending)"

definition one_at_a_time :: "transport \<Rightarrow> bool" where
  "one_at_a_time w =
     ((\<forall>i < length (sockets w). sockets w ! i \<noteq> CLOSED \<longrightarrow> Suc i = length (sockets w)) \<and>
      (\<forall>t < length (timers w). snd (timers w ! t) = Pending \<longrightarrow> Suc t = length (timers w)) \<and>
      \<not> (live_socket w \<and> pending_timer w))"

text \<open>
  A transport is backing off since its \<^verbatim>\<open>n0\<close>-th timer when the timers set from then on
  carry the delays of the counters 0, 1, 2, ... and the counter says how many of them have
  fired.
\<close>

definition backing_off :: "nat \<Rightarrow> transport \<Rightarrow> bool" where
  "backing_off n0 w =
     (n0 \<le> length (timers w) \<and>
      (\<forall>t < length (timers w). snd (timers w ! t) = Pending \<longrightarrow> n0 \<le> t) \<and>
      drop n0 (delays w) = map reconnect_timeout [0..<length (timers w) - n0] \<and>
      reconnectCountRef w = length (timers w) - n0 - (if pending_timer w then 1 else 0))"

section \<open>Inbound messages (App.js, the message effect)\<close>

text \<open>
  A value that \<^verbatim>\<open>JSON.parse\<close> returns. An object is the list of its properties. The two
  errors are the ones the \<^verbatim>\<open>try\<close> block can raise: \<^verbatim>\<open>JSON.parse\<close> throws a SyntaxError on
  text that is not JSON, and reading a property of \<^verbatim>\<open>null\<close> throws a TypeError.
\<close>

datatype json =
  JNull | JBool bool | JNumber rat | JString string | JArray "json list"
  | JObject "(string \<times> json) list"

datatype js_error = SyntaxError | TypeError

text \<open>
  \<^verbatim>\<open>message.type\<close> and \<^verbatim>\<open>message.data\<close>: the property of an object, where None stands for
  \<^verbatim>\<open>undefined\<close>; \<^verbatim>\<open>undefined\<close> too on a number, a boolean, a string or an array, which have
  no property of these two names; a TypeError on \<^verbatim>\<open>null\<close>.
\<close>

fun get_property :: "json \<Rightarrow> string \<Rightarrow> js_error + json option" where
  "get_property JNull name = Inl TypeError"
| "get_property (JObject properties) name = Inr (map_of properties name)"
| "get_property _ name = Inr None"

text \<open>
  The body of the \<^verbatim>\<open>try\<close> block: the new value of the \<^verbatim>\<open>stocks\<close> state, or the error thrown.
  \<^verbatim>\<open>JSON.parse\<close> is a parameter of the model: None where it throws.
\<close>

definition try_block :: "(string \<Rightarrow> json option) \<Rightarrow> string \<Rightarrow> json option \<Rightarrow> js_error + json option" where
  "try_block JSON_parse raw stocks =
     (case JSON_parse raw of
        None \<Rightarrow> Inl SyntaxError
      | Some message \<Rightarrow>
          (case get_property message ''type'' of
             Inl e \<Rightarrow> Inl e
           | Inr type \<Rightarrow>
               if type = Some (JString ''market_data'')
               then (case get_property message ''data'' of Inl e \<Rightarrow> Inl e | Inr data \<Rightarrow> Inr data)
               else Inr stocks))"

text \<open>
  The effect that runs when \<^verbatim>\<open>lastMessage\<close> changes. It does nothing for \<^verbatim>\<open>null\<close> and for the
  empty string, which are falsy, and its \<^verbatim>\<open>catch\<close> block logs the error and goes on. The
  result is \<^verbatim>\<open>Inr\<close> of the new \<^verbatim>\<open>stocks\<close>, or \<^verbatim>\<open>Inl\<close> of an error that leaves the effect.
\<close>

definition process_message ::
  "(string \<Rightarrow> json option) \<Rightarrow> string option \<Rightarrow> json option \<Rightarrow> js_error + json option" where
  "process_message JSON_parse last_message stocks =
     (case last_message of
        None \<Rightarrow> Inr stocks
      | Some raw \<Rightarrow>
          if raw = [] then Inr stocks
          else (case try_block JSON_parse raw stocks of
                  Inl error \<Rightarrow> Inr stocks
                | Inr stocks' \<Rightarrow> Inr stocks'))"

text \<open>
  A stand-in for \<^verbatim>\<open>JSON.parse\<close> in examples: it knows the values of four texts and rejects
  every other text.
\<close>

definition example_parse :: "string \<Rightarrow> json option" where
  "example_parse raw =
     map_of
       [(''status'', JObject [(''type'', JString ''market_status''), (''data'', JString ''open'')]),
        (''error'', JObject [(''type'', JString ''error''), (''data'', JString ''upstream'')]),
        (''data'', JObject [(''type'', JString ''market_data''), (''data'', JArray [JNumber 1])]),
        (''null'', JNull)] raw"

section \<open>Double arithmetic\<close>

text \<open>
  The arithmetic of JavaScript numbers is that of IEEE 754 doubles: the exact result of an
  addition or a division is rounded to the nearest double, a tie going to the double with
  an even significand. A finite double is \<^verbatim>\<open>m * 2^e\<close> with an integer \<^verbatim>\<open>m\<close> below \<^verbatim>\<open>2^53\<close> in
  magnitude and \<^verbatim>\<open>e\<close> from -1074 to 971. The two zeros of the format are one value here; they
  differ only as divisors, and no divisor below is zero.
\<close>

text \<open>The integer nearest to a rational that is not negative, a tie going to the even one.\<close>

definition round_half_even :: "rat \<Rightarrow> int" where
  "round_half_even q =
     (let f = \<lfloor>q\<rfloor>; d = q - of_int f
      in if d < 1 / 2 then f else if 1 / 2 < d then f + 1 else if even f then f else f + 1)"

text \<open>
  The exponent of the last place of a positive rational \<^verbatim>\<open>a\<close>: \<^verbatim>\<open>a = b * 2^e\<close> with \<^verbatim>\<open>b\<close> in
  \<^verbatim>\<open>[2^52, 2^53)\<close>, or \<^verbatim>\<open>b\<close> below \<^verbatim>\<open>2^52\<close> and \<^verbatim>\<open>e = -1074\<close> for a subnormal. It is found by halving
  while \<^verbatim>\<open>b\<close> is too large, then doubling while it is too small.
\<close>

function scale_down :: "rat \<Rightarrow> int \<Rightarrow> rat \<times> int" where
  "scale_down a e = (if 2 ^ 53 \<le> a then scale_down (a / 2) (e + 1) else (a, e))"
  by pat_completeness auto
termination
proof (relation "measure (\<lambda>(a, e). nat \<lfloor>a\<rfloor>)")
  show "wf (measure (\<lambda>(a::rat, e::int). nat \<lfloor>a\<rfloor>))" by simp
next
  fix a :: rat and e :: int
  assume a: "2 ^ 53 \<le> a"
  then have "1 \<le> a / 2" by simp
  then have "a / 2 \<le> a - 1" by simp
  then have "\<lfloor>a / 2\<rfloor> \<le> \<lfloor>a - 1\<rfloor>" by (rule floor_mono)
  moreover have "1 \<le> \<lfloor>a\<rfloor>" using a by (simp add: le_floor_iff)
  ultimately show "((a / 2, e + 1), (a, e)) \<in> measure (\<lambda>(a, e). nat \<lfloor>a\<rfloor>)"
    by simp
qed

function scale_up :: "rat \<Rightarrow> int \<Rightarrow> rat \<times> int" where
  "scale_up a e = (if a < 2 ^ 52 \<and> - 1074 < e then scale_up (2 * a) (e - 1) else (a, e))"
  by pat_completeness auto
termination
  by (relation "measure (\<lambda>(a, e). nat (e + 1074))") auto

declare scale_down.simps [simp del] scale_up.simps [simp del]

definition pow2 :: "int \<Rightarrow> rat" where
  "pow2 e = (if 0 \<le> e then 2 ^ nat e else 1 / 2 ^ nat (- e))"

text \<open>A positive rational rounded to a multiple of its last place.\<close>

definition round_magnitude :: "rat \<Rightarrow> rat" where
  "round_magnitude a =
     (let (b, e) = (case scale_down a 0 of (b, e) \<Rightarrow> scale_up b e)
      in of_int (round_half_even b) * pow2 e)"

text \<open>
  The double nearest to a rational. A magnitude that rounds to \<^verbatim>\<open>2^1024\<close> or more
  overflows to an infinity; one that rounds to 0 underflows to zero.
\<close>

definition to_double :: "rat \<Rightarrow> number" where
  "to_double x =
     (if x = 0 then Finite 0
      else let r = round_magnitude \<bar>x\<bar>
           in if 2 ^ 1024 \<le> r then (if 0 < x then Infinity else NegInfinity)
              else Finite (if 0 < x then r else - r))"

definition is_double :: "rat \<Rightarrow> bool" where
  "is_double x = (to_double x = Finite x)"

text \<open>\<^verbatim>\<open>a + b\<close> and \<^verbatim>\<open>a / b\<close> on numbers.\<close>

fun fadd :: "number \<Rightarrow> number \<Rightarrow> number" where
  "fadd (Finite a) (Finite b) = to_double (a + b)"
| "fadd NaN _ = NaN"
| "fadd _ NaN = NaN"
| "fadd Infinity NegInfinity = NaN"
| "fadd NegInfinity Infinity = NaN"
| "fadd Infinity _ = Infinity"
| "fadd _ Infinity = Infinity"
| "fadd NegInfinity _ = NegInfinity"
| "fadd _ NegInfinity = NegInfinity"

fun fdiv :: "number \<Rightarrow> number \<Rightarrow> number" where
  "fdiv (Finite a) (Finite b) =
     (if b = 0 then (if a = 0 then NaN else if 0 < a then Infinity else NegInfinity)
      else to_double (a / b))"
| "fdiv NaN _ = NaN"
| "fdiv _ NaN = NaN"
| "fdiv (Finite a) _ = Finite 0"
| "fdiv Infinity (Finite b) = (if 0 \<le> b then Infinity else NegInfinity)"
| "fdiv NegInfinity (Finite b) = (if 0 \<le> b then NegInfinity else Infinity)"
| "fdiv _ _ = NaN"

text \<open>\<^verbatim>\<open>a - b\<close>, and the sign that \<^verbatim>\<open>Array.prototype.sort\<close> reads off the number its comparator
  returns: NaN counts as 0.\<close>

fun negate :: "number \<Rightarrow> number" where
  "negate (Finite a) = Finite (- a)"
| "negate Infinity = NegInfinity"
| "negate NegInfinity = Infinity"
| "negate NaN = NaN"

definition fsub :: "number \<Rightarrow> number \<Rightarrow> number" where
  "fsub a b = fadd a (negate b)"

fun comparator_sign :: "number \<Rightarrow> rat" where
  "comparator_sign (Finite a) = sgn a"
| "comparator_sign Infinity = 1"
| "comparator_sign NegInfinity = - 1"
| "comparator_sign NaN = 0"

section \<open>Market statistics (components/StatsPanel.js)\<close>

text \<open>
  The object that the \<^verbatim>\<open>useMemo\<close> of StatsPanel returns. The three figures are JavaScript
  numbers, computed by \<^verbatim>\<open>reduce\<close> from the left in double arithmetic. Two things are left
  out: the \<^verbatim>\<open>ratio\<close> of the market trend, which is a string made by \<^verbatim>\<open>toFixed\<close>, and the
  formatting of the values in the four lists, which depends on the locale; an entry of a
  list holds the symbol, the percent change and the value before formatting.
\<close>

record market_trend =
  gainers :: nat
  losers :: nat

record market_stats =
  totalVolume :: number
  totalTrades :: number
  avgPrice :: number
  marketTrend :: market_trend
  topGainers :: "(string \<times> rat \<times> rat) list"
  topLosers :: "(string \<times> rat \<times> rat) list"
  mostActiveVolume :: "(string \<times> rat \<times> rat) list"
  mostActiveTrades :: "(string \<times> rat \<times> rat) list"

definition formatStockList :: "snapshot list \<Rightarrow> (snapshot \<Rightarrow> rat) \<Rightarrow> (string \<times> rat \<times> rat) list" where
  "formatStockList list valueKey =
     map (\<lambda>stock. (symbol stock, percent_change stock, valueKey stock)) (array_slice list 0 5)"

definition stats :: "snapshot list \<Rightarrow> market_stats option" where
  "stats stocks =
     (if length stocks = 0 then None
      else
        let sortedByGain =
              array_sort (\<lambda>a b. comparator_sign
                 (fsub (Finite (percent_change b)) (Finite (percent_change a)))) stocks;
            sortedByVolume =
              array_sort (\<lambda>a b. comparator_sign
                 (fsub (Finite (of_int (volume b))) (Finite (of_int (volume a))))) stocks;
            sortedByTrades =
              array_sort (\<lambda>a b. comparator_sign
                 (fsub (Finite (of_int (trade_count b))) (Finite (of_int (trade_count a))))) stocks;
            total_volume =
              foldl (\<lambda>sum stock. fadd sum (Finite (of_int (volume stock)))) (Finite 0) stocks;
            total_trades =
              foldl (\<lambda>sum stock. fadd sum (Finite (of_int (trade_count stock)))) (Finite 0) stocks;
            avg_price =
              fdiv (foldl (\<lambda>sum stock. fadd sum (Finite (current_price stock))) (Finite 0) stocks)
                (Finite (of_nat (length stocks)));
            the_gainers = filter (\<lambda>stock. percent_change stock > 0) stocks
        in Some
          \<lparr>totalVolume = total_volume,
           totalTrades = total_trades,
           avgPrice = avg_price,
           marketTrend = \<lparr>gainers = length the_gainers, losers = length stocks - length the_gainers\<rparr>,
           topGainers = formatStockList sortedByGain current_price,
           topLosers =
             formatStockList
               (rev (array_slice sortedByGain (- 5) (int (length sortedByGain)))) current_price,
           mostActiveVolume = formatStockList sortedByVolume (\<lambda>stock. of_int (volume stock)),
           mostActiveTrades = formatStockList sortedByTrades (\<lambda>stock. of_int (trade_count stock))\<rparr>)"

section \<open>The objects of the page and the effect that computes the view\<close>

text \<open>
  The arrays and the two kinds of configuration objects live in a store; a reference is a
  position in it. \<^verbatim>\<open>Array.prototype.sort\<close> changes the array it is called on, while the
  spread, \<^verbatim>\<open>filter\<close> and \<^verbatim>\<open>slice\<close> make a new array, so the store shows which object an
  operation writes.
\<close>

type_synonym ref = nat

record heap =
  arrays :: "snapshot list list"
  sort_configs :: "sort_config list"
  filter_configs :: "filter_config list"

definition new_array :: "snapshot list \<Rightarrow> heap \<Rightarrow> ref \<times> heap" where
  "new_array xs h = (length (arrays h), h\<lparr>arrays := arrays h @ [xs]\<rparr>)"

definition spread_copy :: "ref \<Rightarrow> heap \<Rightarrow> ref \<times> heap" where
  "spread_copy a h = new_array (arrays h ! a) h"

definition filter_array :: "(snapshot \<Rightarrow> bool) \<Rightarrow> ref \<Rightarrow> heap \<Rightarrow> ref \<times> heap" where
  "filter_array p a h = new_array (filter p (arrays h ! a)) h"

definition sort_in_place :: "(snapshot \<Rightarrow> snapshot \<Rightarrow> rat) \<Rightarrow> ref \<Rightarrow> heap \<Rightarrow> ref \<times> heap" where
  "sort_in_place cmp a h = (a, h\<lparr>arrays := (arrays h)[a := array_sort cmp (arrays h ! a)]\<rparr>)"

definition slice_array :: "int \<Rightarrow> int \<Rightarrow> ref \<Rightarrow> heap \<Rightarrow> ref \<times> heap" where
  "slice_array start fin a h = new_array (array_slice (arrays h ! a) start fin) h"

text \<open>
  The body of the effect, statement by statement: the copy of \<^verbatim>\<open>stocks\<close>, the filter into a
  new array, the sort of that array in place, and the slice that \<^verbatim>\<open>setFilteredStocks\<close> gets.
\<close>

definition filter_and_sort_effect :: "ref \<Rightarrow> ref \<Rightarrow> ref \<Rightarrow> heap \<Rightarrow> ref \<times> heap" where
  "filter_and_sort_effect stocks sortConfig filterConfig h =
     (let (filtered, h) = spread_copy stocks h;
          (filtered, h) =
            filter_array (\<lambda>stock. passes_filter (filter_configs h ! filterConfig) stock) filtered h;
          (sorted, h) =
            sort_in_place (\<lambda>a b. compare_stocks (sort_configs h ! sortConfig) a b) filtered h;
          (filtered, h) = slice_array 0 (displayCount (filter_configs h ! filterConfig)) filtered h
      in (filtered, h))"

text \<open>
  The state of App: each slot holds a reference. React runs the effect after a render when
  it has not run yet or when one of its dependencies \<^verbatim>\<open>[stocks, sortConfig, filterConfig]\<close>
  is not the same object as at the last run; \<^verbatim>\<open>effect_deps\<close> remembers the dependencies of the
  last run.
\<close>

record app =
  stocks_ref :: ref
  filteredStocks_ref :: ref
  sortConfig_ref :: ref
  filterConfig_ref :: ref
  effect_deps :: "(ref \<times> ref \<times> ref) option"

definition run_effect :: "app \<times> heap \<Rightarrow> app \<times> heap" where
  "run_effect = (\<lambda>(a, h).
     let deps = (stocks_ref a, sortConfig_ref a, filterConfig_ref a)
     in if effect_deps a = Some deps then (a, h)
        else
          let (filtered, h') = filter_and_sort_effect (stocks_ref a) (sortConfig_ref a) (filterConfig_ref a) h
          in (a\<lparr>filteredStocks_ref := filtered, effect_deps := Some deps\<rparr>, h'))"

text \<open>
  What changes the inputs: a \<^verbatim>\<open>market_data\<close> message (\<^verbatim>\<open>setStocks(message.data)\<close>, with a new
  array), a click on a column header (\<^verbatim>\<open>handleSort\<close>), and a change of the filter
  (\<^verbatim>\<open>setFilterConfig(prev => ({...prev, ...}))\<close>, with any update of the fields). Each stores a
  new object, and the render that follows runs the effect.
\<close>

datatype action =
  Market_data "snapshot list" | Sort_by sort_key | Set_filter "filter_config \<Rightarrow> filter_config"

definition setStocks :: "snapshot list \<Rightarrow> app \<times> heap \<Rightarrow> app \<times> heap" where
  "setStocks data = (\<lambda>(a, h). (a\<lparr>stocks_ref := length (arrays h)\<rparr>, h\<lparr>arrays := arrays h @ [data]\<rparr>))"

definition handleSort :: "sort_key \<Rightarrow> app \<times> heap \<Rightarrow> app \<times> heap" where
  "handleSort k = (\<lambda>(a, h).
     let prevConfig = sort_configs h ! sortConfig_ref a;
         new = \<lparr>key = k, direction = (if key prevConfig = k \<and> direction prevConfig = Asc then Desc else Asc)\<rparr>
     in (a\<lparr>sortConfig_ref := length (sort_configs h)\<rparr>, h\<lparr>sort_configs := sort_configs h @ [new]\<rparr>))"

definition setFilterConfig :: "(filter_config \<Rightarrow> filter_config) \<Rightarrow> app \<times> heap \<Rightarrow> app \<times> heap" where
  "setFilterConfig update = (\<lambda>(a, h).
     let prev = filter_configs h ! filterConfig_ref a
     in (a\<lparr>filterConfig_ref := length (filter_configs h)\<rparr>,
         h\<lparr>filter_configs := filter_configs h @ [update prev]\<rparr>))"

fun dispatch :: "app \<times> heap \<Rightarrow> action \<Rightarrow> app \<times> heap" where
  "dispatch s (Market_data data) = run_effect (setStocks data s)"
| "dispatch s (Sort_by k) = run_effect (handleSort k s)"
| "dispatch s (Set_filter update) = run_effect (setFilterConfig update s)"

text \<open>The initial state of App, and the state after the first render.\<close>

definition initial_app :: "app \<times> heap" where
  "initial_app =
     (\<lparr>stocks_ref = 0, filteredStocks_ref = 1, sortConfig_ref = 0, filterConfig_ref = 0, effect_deps = None\<rparr>,
      \<lparr>arrays = [[], []], sort_configs = [initial_sortConfig], filter_configs = [initial_filterConfig]\<rparr>)"

definition first_paint :: "app \<times> heap" where
  "first_paint = run_effect initial_app"

text \<open>The list on display and the three inputs, read through the references.\<close>

definition view_of :: "app \<times> heap \<Rightarrow> snapshot list" where
  "view_of = (\<lambda>(a, h). arrays h ! filteredStocks_ref a)"

definition inputs_of :: "app \<times> heap \<Rightarrow> snapshot list \<times> sort_config \<times> filter_config" where
  "inputs_of = (\<lambda>(a, h). (arrays h ! stocks_ref a, sort_configs h ! sortConfig_ref a, filter_configs h ! filterConfig_ref a))"

text \<open>
  The references point into the store, and the list on display is the computation on the
  dependencies of the last run of the effect.
\<close>

definition well_formed :: "app \<times> heap \<Rightarrow> bool" where
  "well_formed = (\<lambda>(a, h).
     stocks_ref a < length (arrays h) \<and> filteredStocks_ref a < length (arrays h) \<and>
     sortConfig_ref a < length (sort_configs h) \<and> filterConfig_ref a < length (filter_configs h) \<and>
     (case effect_deps a of
        None \<Rightarrow> True
      | Some (s, c, f) \<Rightarrow>
          s < length (arrays h) \<and> c < length (sort_configs h) \<and> f < length (filter_configs h) \<and>
          arrays h ! filteredStocks_ref a = compute (arrays h ! s) (sort_configs h ! c) (filter_configs h ! f)))"

text \<open>What an action does to the inputs, as values.\<close>

fun apply_action ::
  "action \<Rightarrow> snapshot list \<times> sort_config \<times> filter_config \<Rightarrow> snapshot list \<times> sort_config \<times> filter_config" where
  "apply_action (Market_data data) (x, c, f) = (data, c, f)"
| "apply_action (Sort_by k) (x, c, f) =
     (x, \<lparr>key = k, direction = (if key c = k \<and> direction c = Asc then Desc else Asc)\<rparr>, f)"
| "apply_action (Set_filter update) (x, c, f) = (x, c, update f)"

definition compute_of :: "snapshot list \<times> sort_config \<times> filter_config \<Rightarrow> snapshot list" where
  "compute_of = (\<lambda>(x, c, f). compute x c f)"

section \<open>Properties of the comparisons and of the array operations\<close>

lemma js_le_via_finite: "js_le a (Finite x) \<Longrightarrow> js_le (Finite x) b \<Longrightarrow> \<not> js_lt b a"
  by (cases a; cases b) auto

lemma array_sort_Nil: "array_sort cmp [] = []"
  by (simp add: array_sort_def)

lemma array_sort_Cons: "array_sort cmp (x # xs) = insert_by cmp x (array_sort cmp xs)"
  by (simp add: array_sort_def)

lemma array_slice_Nil: "array_slice [] i j = []"
  by (simp add: array_slice_def)

lemma array_slice_take: "0 \<le> n \<Longrightarrow> array_slice xs 0 n = take (nat n) xs"
  by (simp add: array_slice_def relative_index_def min_def)

lemma length_insert_by: "length (insert_by cmp x ys) = Suc (length ys)"
  by (induction ys) auto

lemma length_array_sort: "length (array_sort cmp xs) = length xs"
  by (induction xs) (auto simp: array_sort_def length_insert_by)

lemma mset_insert_by: "mset (insert_by cmp x ys) = add_mset x (mset ys)"
  by (induction ys) auto

lemma set_insert_by: "set (insert_by cmp x ys) = insert x (set ys)"
  by (induction ys) auto

lemma mset_array_sort: "mset (array_sort cmp xs) = mset xs"
  by (induction xs) (auto simp: array_sort_def mset_insert_by)

text \<open>
  Stability, for any comparator: the elements that the comparator does not separate keep
  their order. The element inserted last stood first, and it stops before the first
  element it does not have to follow.
\<close>

lemma filter_insert_by_in:
  assumes "P x" and "\<And>y. P y \<Longrightarrow> cmp x y \<le> 0"
  shows "filter P (insert_by cmp x ys) = x # filter P ys"
  using assms by (induction ys) auto

lemma filter_insert_by_out:
  assumes "\<not> P x"
  shows "filter P (insert_by cmp x ys) = filter P ys"
  using assms by (induction ys) auto

lemma array_sort_stable:
  assumes "\<And>x y. P x \<Longrightarrow> P y \<Longrightarrow> cmp x y \<le> 0"
  shows "filter P (array_sort cmp xs) = filter P xs"
proof (induction xs)
  case Nil
  show ?case by (simp add: array_sort_def)
next
  case (Cons x xs)
  show ?case
  proof (cases "P x")
    case True
    then have "filter P (insert_by cmp x (array_sort cmp xs)) = x # filter P (array_sort cmp xs)"
      using assms by (intro filter_insert_by_in) auto
    with True Cons show ?thesis by (simp add: array_sort_Cons)
  next
    case False
    with Cons show ?thesis by (simp add: array_sort_Cons filter_insert_by_out)
  qed
qed

lemma sorted_insert_by:
  assumes total: "\<And>a b. cmp a b \<le> 0 \<or> cmp b a \<le> 0"
    and trans: "\<And>a b c. cmp a b \<le> 0 \<Longrightarrow> cmp b c \<le> 0 \<Longrightarrow> cmp a c \<le> 0"
    and "sorted_wrt (\<lambda>a b. cmp a b \<le> 0) ys"
  shows "sorted_wrt (\<lambda>a b. cmp a b \<le> 0) (insert_by cmp x ys)"
  using assms(3)
proof (induction ys)
  case Nil
  show ?case by simp
next
  case (Cons y ys)
  show ?case
  proof (cases "cmp x y \<le> 0")
    case True
    with Cons.prems trans show ?thesis by auto
  next
    case False
    with total have "cmp y x \<le> 0" by blast
    with False Cons show ?thesis by (auto simp: set_insert_by)
  qed
qed

lemma sorted_array_sort:
  assumes "\<And>a b. cmp a b \<le> 0 \<or> cmp b a \<le> 0"
    and "\<And>a b c. cmp a b \<le> 0 \<Longrightarrow> cmp b c \<le> 0 \<Longrightarrow> cmp a c \<le> 0"
  shows "sorted_wrt (\<lambda>a b. cmp a b \<le> 0) (array_sort cmp xs)"
proof (induction xs)
  case Nil
  show ?case by (simp add: array_sort_def)
next
  case (Cons x xs)
  then show ?case
    using sorted_insert_by[of cmp, OF assms] by (simp add: array_sort_Cons)
qed

text \<open>
  A comparator that is total and transitive leaves no choice to a stable sort: two sorted
  lists that keep the order of the elements the comparator does not separate are equal. So
  the result of \<^verbatim>\<open>array_sort\<close> is the result of every stable sort, whatever its algorithm.
\<close>

lemma stable_sorted_unique:
  fixes cmp :: "'a \<Rightarrow> 'a \<Rightarrow> rat"
  assumes total: "\<And>a b. cmp a b \<le> 0 \<or> cmp b a \<le> 0"
    and trans: "\<And>a b c. cmp a b \<le> 0 \<Longrightarrow> cmp b c \<le> 0 \<Longrightarrow> cmp a c \<le> 0"
    and "sorted_wrt (\<lambda>a b. cmp a b \<le> 0) ys" and "sorted_wrt (\<lambda>a b. cmp a b \<le> 0) zs"
    and "\<And>x. filter (\<lambda>y. cmp x y \<le> 0 \<and> cmp y x \<le> 0) ys = filter (\<lambda>y. cmp x y \<le> 0 \<and> cmp y x \<le> 0) zs"
  shows "ys = zs"
  using assms(3,4,5)
proof (induction ys arbitrary: zs)
  case Nil
  show ?case
  proof (cases zs)
    case Nil
    then show ?thesis by simp
  next
    case (Cons z zs')
    have "cmp z z \<le> 0" using total[of z z] by simp
    with Nil.prems(3)[of z] Cons show ?thesis by simp
  qed
next
  case (Cons y ys)
  have refl: "cmp a a \<le> 0" for a using total[of a a] by simp
  have "y \<in> set (filter (\<lambda>u. cmp y u \<le> 0 \<and> cmp u y \<le> 0) (y # ys))"
    using refl[of y] by simp
  then have "y \<in> set (filter (\<lambda>u. cmp y u \<le> 0 \<and> cmp u y \<le> 0) zs)"
    by (simp only: Cons.prems(3)[of y])
  then have y_in: "y \<in> set zs"
    by (meson filter_is_subset subsetD)
  then obtain z zs' where zs: "zs = z # zs'" by (cases zs) auto
  have "z \<in> set (filter (\<lambda>u. cmp z u \<le> 0 \<and> cmp u z \<le> 0) zs)"
    using refl[of z] zs by simp
  then have "z \<in> set (filter (\<lambda>u. cmp z u \<le> 0 \<and> cmp u z \<le> 0) (y # ys))"
    by (simp only: Cons.prems(3)[of z])
  then have z_in: "z \<in> set (y # ys)"
    by (meson filter_is_subset subsetD)
  have "cmp y z \<le> 0"
    using z_in Cons.prems(1) refl[of y] by auto
  moreover have "cmp z y \<le> 0"
    using y_in Cons.prems(2) refl[of z] zs by auto
  ultimately have "y = z"
    using Cons.prems(3)[of y] refl[of y] zs by simp
  have "filter (\<lambda>u. cmp x u \<le> 0 \<and> cmp u x \<le> 0) ys = filter (\<lambda>u. cmp x u \<le> 0 \<and> cmp u x \<le> 0) zs'" for x
    using Cons.prems(3)[of x] zs \<open>y = z\<close> by (simp split: if_splits)
  moreover have "sorted_wrt (\<lambda>a b. cmp a b \<le> 0) ys" "sorted_wrt (\<lambda>a b. cmp a b \<le> 0) zs'"
    using Cons.prems(1,2) zs by simp_all
  ultimately have "ys = zs'"
    using Cons.IH by blast
  with zs \<open>y = z\<close> show ?case by simp
qed

lemma array_sort_unique:
  fixes cmp :: "'a \<Rightarrow> 'a \<Rightarrow> rat"
  assumes total: "\<And>a b. cmp a b \<le> 0 \<or> cmp b a \<le> 0"
    and trans: "\<And>a b c. cmp a b \<le> 0 \<Longrightarrow> cmp b c \<le> 0 \<Longrightarrow> cmp a c \<le> 0"
    and sorted: "sorted_wrt (\<lambda>a b. cmp a b \<le> 0) out"
    and stable: "\<And>x. filter (\<lambda>y. cmp x y \<le> 0 \<and> cmp y x \<le> 0) out = filter (\<lambda>y. cmp x y \<le> 0 \<and> cmp y x \<le> 0) xs"
  shows "out = array_sort cmp xs"
proof (rule stable_sorted_unique[of cmp, OF total trans sorted])
  show "sorted_wrt (\<lambda>a b. cmp a b \<le> 0) (array_sort cmp xs)"
    using total trans by (rule sorted_array_sort)
next
  fix x
  have "filter (\<lambda>y. cmp x y \<le> 0 \<and> cmp y x \<le> 0) (array_sort cmp xs)
      = filter (\<lambda>y. cmp x y \<le> 0 \<and> cmp y x \<le> 0) xs"
    by (rule array_sort_stable) (meson trans)
  with stable[of x]
  show "filter (\<lambda>y. cmp x y \<le> 0 \<and> cmp y x \<le> 0) out
      = filter (\<lambda>y. cmp x y \<le> 0 \<and> cmp y x \<le> 0) (array_sort cmp xs)"
    by simp
qed

section \<open>Properties of the comparator of the table\<close>

lemma js_less_irrefl: "\<not> js_less v v"
  by (cases v) auto

lemma js_less_asym:
  "js_less (sort_field k a) (sort_field k b) \<Longrightarrow> \<not> js_less (sort_field k b) (sort_field k a)"
  by (cases k) auto

lemma js_less_negtrans:
  "\<not> js_less (sort_field k b) (sort_field k a) \<Longrightarrow> \<not> js_less (sort_field k c) (sort_field k b)
    \<Longrightarrow> \<not> js_less (sort_field k c) (sort_field k a)"
  by (cases k) auto

lemma compare_stocks_equal_keys:
  "sort_field (key sc) a = sort_field (key sc) b \<Longrightarrow> compare_stocks sc a b = 0"
  by (simp add: compare_stocks_def js_greater_def js_less_irrefl)

lemma compare_stocks_le_0:
  "compare_stocks sc a b \<le> 0 \<longleftrightarrow>
     (if direction sc = Asc then \<not> js_less (sort_field (key sc) b) (sort_field (key sc) a)
      else \<not> js_less (sort_field (key sc) a) (sort_field (key sc) b))"
  using js_less_asym[of "key sc" a b] by (auto simp: compare_stocks_def js_greater_def)

lemma compare_stocks_total: "compare_stocks sc a b \<le> 0 \<or> compare_stocks sc b a \<le> 0"
  unfolding compare_stocks_le_0 using js_less_asym[of "key sc" a b] by auto

lemma compare_stocks_trans:
  "compare_stocks sc a b \<le> 0 \<Longrightarrow> compare_stocks sc b c \<le> 0 \<Longrightarrow> compare_stocks sc a c \<le> 0"
  unfolding compare_stocks_le_0 using js_less_negtrans[of "key sc"] by (auto split: if_splits)

lemma compare_stocks_flip:
  "compare_stocks (sc\<lparr>direction := Desc\<rparr>) a b = - compare_stocks (sc\<lparr>direction := Asc\<rparr>) a b"
  by (simp add: compare_stocks_def)

lemma sort_step_unique:
  assumes "sorted_wrt (\<lambda>a b. compare_stocks sc a b \<le> 0) out"
    and "\<And>x. filter (\<lambda>y. compare_stocks sc x y \<le> 0 \<and> compare_stocks sc y x \<le> 0) out
            = filter (\<lambda>y. compare_stocks sc x y \<le> 0 \<and> compare_stocks sc y x \<le> 0) xs"
  shows "out = sort_step sc xs"
  unfolding sort_step_def
  using compare_stocks_total compare_stocks_trans assms by (rule array_sort_unique)

lemma passes_filter_inverted:
  assumes "js_gt (minPrice fc) (maxPrice fc) \<or> js_gt (minVolume fc) (maxVolume fc)"
  shows "\<not> passes_filter fc s"
  using assms js_le_via_finite[of "minPrice fc" "current_price s" "maxPrice fc"]
     js_le_via_finite[of "minVolume fc" "of_int (volume s)" "maxVolume fc"]
  by (auto simp: passes_filter_def js_ge_def js_gt_def)

lemma passes_filter_within:
  assumes "minPrice fc = Finite pmin" and "maxPrice fc = max_number pmax"
    and "minVolume fc = Finite vmin" and "maxVolume fc = max_number vmax"
    and "minTradeCount fc = Finite tmin"
  shows "passes_filter fc s \<longleftrightarrow>
     in_range pmin pmax (current_price s) \<and> in_range vmin vmax (of_int (volume s)) \<and>
     tmin \<le> of_int (trade_count s)"
  using assms by (cases pmax; cases vmax) (auto simp: passes_filter_def js_ge_def)

section \<open>The claims about the derived view\<close>

text \<open>
  C4. The filter step keeps a snapshot exactly when its price lies within
  [minPrice, maxPrice] and its volume within [minVolume, maxVolume], bounds included, and
  its trade count is at least minTradeCount, and it keeps the retained snapshots in their
  order. A snapshot priced exactly maxPrice stays when it meets the other bounds, a snapshot
  priced one above maxPrice goes, and maxima left at Infinity exclude nothing.
\<close>

theorem filter_step_retains_iff:
  assumes "minPrice fc = Finite pmin" and "maxPrice fc = max_number pmax"
    and "minVolume fc = Finite vmin" and "maxVolume fc = max_number vmax"
    and "minTradeCount fc = Finite tmin"
  shows "filter_step fc stocks =
     filter (\<lambda>s. in_range pmin pmax (current_price s) \<and> in_range vmin vmax (of_int (volume s)) \<and>
                 tmin \<le> of_int (trade_count s)) stocks \<and>
   (\<forall>s\<in>set stocks. pmax = At_most (current_price s) \<and> pmin \<le> current_price s \<and>
        in_range vmin vmax (of_int (volume s)) \<and> tmin \<le> of_int (trade_count s)
        \<longrightarrow> s \<in> set (filter_step fc stocks)) \<and>
   (\<forall>s. pmax = At_most (current_price s - 1) \<longrightarrow> s \<notin> set (filter_step fc stocks)) \<and>
   (pmax = No_ceiling \<and> vmax = No_ceiling \<longrightarrow>
      filter_step fc stocks =
        filter (\<lambda>s. pmin \<le> current_price s \<and> vmin \<le> of_int (volume s) \<and>
                    tmin \<le> of_int (trade_count s)) stocks)"
proof -
  have keep: "filter_step fc stocks =
     filter (\<lambda>s. in_range pmin pmax (current_price s) \<and> in_range vmin vmax (of_int (volume s)) \<and>
                 tmin \<le> of_int (trade_count s)) stocks"
    unfolding filter_step_def using passes_filter_within[OF assms] by (intro filter_cong) auto
  show ?thesis
    unfolding keep by auto
qed

text \<open>
  At a concrete input: with maxPrice 10 and no volume ceiling, the row priced 10 stays, the
  row priced 11 goes, and a volume of a billion passes the unbounded maximum.
\<close>

theorem filter_step_retains_iff_witness:
  "map symbol
     (filter_step (initial_filterConfig\<lparr>minPrice := Finite 1, maxPrice := Finite 10\<rparr>)
        [row ''AAA'' 10 1000000000 3, row ''BBB'' 11 5 3, row ''CCC'' (1/2) 5 3, row ''DDD'' 1 0 0])
   = [''AAA'', ''DDD'']"
  using filter_step_retains_iff[where fc = "initial_filterConfig\<lparr>minPrice := Finite 1, maxPrice := Finite 10\<rparr>"
      and pmin = 1 and pmax = "At_most 10" and vmin = 0 and vmax = No_ceiling and tmin = 0
      and stocks = "[row ''AAA'' 10 1000000000 3, row ''BBB'' 11 5 3, row ''CCC'' (1/2) 5 3, row ''DDD'' 1 0 0]"]
  by (simp add: initial_filterConfig_def row_def)

text \<open>
  C8. When minPrice is above maxPrice, or minVolume above maxVolume, no snapshot passes and
  the view is the empty list: the computation has no failing branch.
\<close>

theorem inverted_range_empty:
  assumes "js_gt (minPrice fc) (maxPrice fc) \<or> js_gt (minVolume fc) (maxVolume fc)"
  shows "compute stocks sc fc = []"
proof -
  have "filter_step fc stocks = []"
    unfolding filter_step_def using passes_filter_inverted[OF assms] by (simp add: filter_empty_conv)
  then show ?thesis
    by (simp add: compute_def sort_step_def truncate_step_def array_sort_Nil array_slice_Nil)
qed

theorem inverted_range_empty_witness:
  "js_gt (Finite 20) (Finite 10) \<and>
   compute [row ''AAA'' 10 5 3, row ''BBB'' 15 5 3, row ''CCC'' 20 5 3] initial_sortConfig
     (initial_filterConfig\<lparr>minPrice := Finite 20, maxPrice := Finite 10\<rparr>) = []"
  using inverted_range_empty[where fc = "initial_filterConfig\<lparr>minPrice := Finite 20, maxPrice := Finite 10\<rparr>"
      and stocks = "[row ''AAA'' 10 5 3, row ''BBB'' 15 5 3, row ''CCC'' 20 5 3]"
      and sc = initial_sortConfig]
  by (simp add: js_gt_def)

lemma set_array_sort: "set (array_sort cmp xs) = set xs"
  using mset_array_sort[of cmp xs] by (metis set_mset_mset)

lemma filter_take_prefix:
  "filter P (take n xs) = take (length (filter P (take n xs))) (filter P xs)"
proof (induction xs arbitrary: n)
  case Nil
  show ?case by simp
next
  case (Cons x xs)
  show ?case
  proof (cases n)
    case 0
    then show ?thesis by simp
  next
    case (Suc m)
    with Cons[of m] show ?thesis by simp
  qed
qed

lemma take_sorted_rank:
  assumes "sorted_wrt R xs"
  shows "sorted_wrt R (take n xs) \<and> (\<forall>a\<in>set (take n xs). \<forall>b\<in>set (drop n xs). R a b)"
proof -
  from assms have "sorted_wrt R (take n xs @ drop n xs)" by simp
  then show ?thesis unfolding sorted_wrt_append by blast
qed

text \<open>
  C6. For a page size (a count that is not negative) the view holds the displayCount rows
  of highest sort rank among the rows that pass the filter, or all of them when they are
  fewer: its length is the smaller of the two numbers; each of its rows is a row of the
  input that passes the filter; it is ordered by the comparator; the passing rows it leaves
  out all rank at or after each row it shows; and among rows of one key value it shows
  those that come first in the input. It is the first displayCount rows of the sorted,
  filtered list. 100 passing rows and displayCount 20 give the 20 rows of highest rank.
\<close>

theorem truncate_keeps_first_displayCount:
  assumes "0 \<le> displayCount fc"
  shows "length (compute stocks sc fc)
           = min (nat (displayCount fc)) (length (filter (passes_filter fc) stocks)) \<and>
         (\<forall>s\<in>set (compute stocks sc fc). s \<in> set stocks \<and> passes_filter fc s) \<and>
         sorted_wrt (\<lambda>a b. compare_stocks sc a b \<le> 0) (compute stocks sc fc) \<and>
         (\<exists>rest. mset (compute stocks sc fc) + mset rest = mset (filter (passes_filter fc) stocks) \<and>
            (\<forall>a\<in>set (compute stocks sc fc). \<forall>b\<in>set rest. compare_stocks sc a b \<le> 0)) \<and>
         (\<forall>v. \<exists>k. filter (\<lambda>s. sort_field (key sc) s = v) (compute stocks sc fc)
                  = take k (filter (\<lambda>s. sort_field (key sc) s = v) (filter (passes_filter fc) stocks))) \<and>
         compute stocks sc fc = take (nat (displayCount fc)) (sort_step sc (filter_step fc stocks))"
proof -
  let ?n = "nat (displayCount fc)"
  let ?passing = "filter (passes_filter fc) stocks"
  let ?sorted = "array_sort (compare_stocks sc) ?passing"
  let ?R = "\<lambda>a b. compare_stocks sc a b \<le> 0"
  have out: "compute stocks sc fc = take ?n ?sorted"
    using assms
    by (simp add: compute_def truncate_step_def array_slice_take sort_step_def filter_step_def)
  have len: "length (take ?n ?sorted) = min ?n (length ?passing)"
    by (simp add: length_array_sort)
  have mem: "\<forall>s\<in>set (take ?n ?sorted). s \<in> set stocks \<and> passes_filter fc s"
  proof
    fix s assume "s \<in> set (take ?n ?sorted)"
    then have "s \<in> set ?sorted" by (rule in_set_takeD)
    then show "s \<in> set stocks \<and> passes_filter fc s" by (simp add: set_array_sort)
  qed
  have "sorted_wrt ?R ?sorted"
    using compare_stocks_total compare_stocks_trans by (rule sorted_array_sort)
  from take_sorted_rank[OF this, of ?n]
  have sorted: "sorted_wrt ?R (take ?n ?sorted)"
    and rank: "\<forall>a\<in>set (take ?n ?sorted). \<forall>b\<in>set (drop ?n ?sorted). ?R a b"
    by blast+
  have "mset (take ?n ?sorted) + mset (drop ?n ?sorted) = mset ?passing"
    by (metis append_take_drop_id mset_append mset_array_sort)
  with rank have rest: "\<exists>rest. mset (take ?n ?sorted) + mset rest = mset ?passing \<and>
      (\<forall>a\<in>set (take ?n ?sorted). \<forall>b\<in>set rest. ?R a b)"
    by blast
  have ties: "\<exists>k. filter (\<lambda>s. sort_field (key sc) s = v) (take ?n ?sorted)
      = take k (filter (\<lambda>s. sort_field (key sc) s = v) ?passing)" for v
  proof -
    have "filter (\<lambda>s. sort_field (key sc) s = v) ?sorted = filter (\<lambda>s. sort_field (key sc) s = v) ?passing"
      by (rule array_sort_stable) (simp add: compare_stocks_equal_keys)
    with filter_take_prefix[of "\<lambda>s. sort_field (key sc) s = v" ?n ?sorted] show ?thesis
      by metis
  qed
  have last: "take ?n ?sorted = take ?n (sort_step sc (filter_step fc stocks))"
    by (simp add: sort_step_def filter_step_def)
  show ?thesis
    unfolding out using len mem sorted rest ties last by blast
qed

text \<open>
  At a concrete input: of the 110 example rows 100 pass the minimum price 10, and with
  displayCount 20 and the trade count descending the view is the rows with the trade counts
  109 down to 90. The ten rows with higher trade counts do not pass the filter, and the
  first 20 passing rows of the input are other rows in another order.
\<close>

theorem truncate_keeps_first_displayCount_witness:
  "length (filter (passes_filter (initial_filterConfig\<lparr>minPrice := Finite 10, displayCount := 20\<rparr>))
      example_rows) = 100 \<and>
   compute example_rows initial_sortConfig (initial_filterConfig\<lparr>minPrice := Finite 10, displayCount := 20\<rparr>)
     = map (\<lambda>i. row ''S'' (of_nat i) 5 (int i)) (rev [90..<110]) \<and>
   length (compute example_rows initial_sortConfig
      (initial_filterConfig\<lparr>minPrice := Finite 10, displayCount := 20\<rparr>)) = 20 \<and>
   take 20 (filter (passes_filter (initial_filterConfig\<lparr>minPrice := Finite 10, displayCount := 20\<rparr>))
      example_rows)
     \<noteq> map (\<lambda>i. row ''S'' (of_nat i) 5 (int i)) (rev [90..<110])"
proof -
  let ?fc = "initial_filterConfig\<lparr>minPrice := Finite 10, displayCount := 20\<rparr>"
  have passing: "length (filter (passes_filter ?fc) example_rows) = 100"
    by code_simp
  have top: "compute example_rows initial_sortConfig ?fc
      = map (\<lambda>i. row ''S'' (of_nat i) 5 (int i)) (rev [90..<110])"
    by code_simp
  have other: "take 20 (filter (passes_filter ?fc) example_rows)
      \<noteq> map (\<lambda>i. row ''S'' (of_nat i) 5 (int i)) (rev [90..<110])"
    by code_simp
  have "0 \<le> displayCount ?fc"
    by simp
  from truncate_keeps_first_displayCount[OF this, of example_rows initial_sortConfig]
  have "length (compute example_rows initial_sortConfig ?fc)
      = min (nat (displayCount ?fc)) (length (filter (passes_filter ?fc) example_rows))"
    by blast
  also have "\<dots> = 20"
    by (simp only: passing) simp
  finally show ?thesis
    using passing top other by blast
qed

text \<open>
  C5. The sort step is a stable sort by the configured key: the output is a permutation of
  the input, ordered by the key in the configured direction, and the snapshots that share
  a key value keep their input order, ascending or descending. The comparator returns 0
  for equal key values (no second key), and the descending comparator is the negation of
  the ascending one.
\<close>

theorem sort_step_stable:
  "filter (\<lambda>s. sort_field (key sc) s = v) (sort_step sc xs) = filter (\<lambda>s. sort_field (key sc) s = v) xs \<and>
   mset (sort_step sc xs) = mset xs \<and>
   sorted_wrt (\<lambda>a b. if direction sc = Asc
                      then \<not> js_less (sort_field (key sc) b) (sort_field (key sc) a)
                      else \<not> js_less (sort_field (key sc) a) (sort_field (key sc) b)) (sort_step sc xs) \<and>
   (sort_field (key sc) a = sort_field (key sc) b \<longrightarrow> compare_stocks sc a b = 0) \<and>
   compare_stocks (sc\<lparr>direction := Desc\<rparr>) a b = - compare_stocks (sc\<lparr>direction := Asc\<rparr>) a b"
proof -
  have "filter (\<lambda>s. sort_field (key sc) s = v) (array_sort (compare_stocks sc) xs)
      = filter (\<lambda>s. sort_field (key sc) s = v) xs"
    by (rule array_sort_stable) (simp add: compare_stocks_equal_keys)
  moreover have "sorted_wrt (\<lambda>a b. compare_stocks sc a b \<le> 0) (array_sort (compare_stocks sc) xs)"
    using compare_stocks_total compare_stocks_trans by (rule sorted_array_sort)
  ultimately show ?thesis
    by (simp add: sort_step_def mset_array_sort compare_stocks_equal_keys compare_stocks_flip
        compare_stocks_le_0 cong: if_cong)
qed

text \<open>
  At a concrete input: AAA and CCC share the trade count 7 and stay in this order in both
  directions.
\<close>

theorem sort_step_stable_witness:
  "map symbol (sort_step \<lparr>key = Trade_count, direction = Desc\<rparr>
      [row ''AAA'' 10 5 7, row ''BBB'' 11 5 9, row ''CCC'' 12 5 7]) = [''BBB'', ''AAA'', ''CCC''] \<and>
   map symbol (sort_step \<lparr>key = Trade_count, direction = Asc\<rparr>
      [row ''AAA'' 10 5 7, row ''BBB'' 11 5 9, row ''CCC'' 12 5 7]) = [''AAA'', ''CCC'', ''BBB''] \<and>
   filter (\<lambda>s. sort_field Trade_count s = Number 7)
     (sort_step \<lparr>key = Trade_count, direction = Desc\<rparr>
        [row ''AAA'' 10 5 7, row ''BBB'' 11 5 9, row ''CCC'' 12 5 7])
   = [row ''AAA'' 10 5 7, row ''CCC'' 12 5 7]"
  using sort_step_stable[where sc = "\<lparr>key = Trade_count, direction = Desc\<rparr>" and v = "Number 7"
      and xs = "[row ''AAA'' 10 5 7, row ''BBB'' 11 5 9, row ''CCC'' 12 5 7]"]
  by (simp add: sort_step_def array_sort_def compare_stocks_def js_greater_def row_def)

section \<open>Properties of the transport\<close>

lemma run_append: "run w (xs @ ys) = (case run w xs of None \<Rightarrow> None | Some w' \<Rightarrow> run w' ys)"
  by (induction xs arbitrary: w) (auto split: option.splits)

lemma one_at_a_time_mount: "one_at_a_time (mount ok)"
  by (auto simp: one_at_a_time_def mount_def connect_def first_render_def live_socket_def pending_timer_def)

lemma one_at_a_time_open:
  assumes "one_at_a_time w" "step w (Socket_open i) = Some w'"
  shows "one_at_a_time w'"
  using assms
  by (auto simp: one_at_a_time_def live_socket_def pending_timer_def onopen_def nth_list_update
      split: if_splits)

lemma one_at_a_time_message:
  assumes "one_at_a_time w" "step w (Socket_message i d) = Some w'"
  shows "one_at_a_time w'"
  using assms
  by (auto simp: one_at_a_time_def live_socket_def pending_timer_def onmessage_def split: if_splits)

lemma one_at_a_time_error:
  assumes "one_at_a_time w" "step w (Socket_error i) = Some w'"
  shows "one_at_a_time w'"
  using assms
  by (auto simp: one_at_a_time_def live_socket_def pending_timer_def onerror_def split: if_splits)

lemma one_at_a_time_close:
  assumes "one_at_a_time w" "step w (Socket_close i) = Some w'"
  shows "one_at_a_time w'"
  using assms
  by (auto simp: one_at_a_time_def live_socket_def pending_timer_def onclose_def nth_list_update nth_append
      split: if_splits) (metis Suc_inject)+

lemma one_at_a_time_timer:
  assumes "one_at_a_time w" "step w (Timer_fires t) = Some w'"
  shows "one_at_a_time w'"
  using assms
  by (auto simp: one_at_a_time_def live_socket_def pending_timer_def timer_callback_def connect_def
      nth_list_update nth_append split: if_splits) (metis Suc_inject)+

lemma one_at_a_time_step:
  assumes "one_at_a_time w" "step w e = Some w'" "e \<noteq> Cleanup"
  shows "one_at_a_time w'"
  using assms one_at_a_time_open one_at_a_time_message one_at_a_time_error one_at_a_time_close
    one_at_a_time_timer
  by (cases e) blast+

lemma one_at_a_time_run:
  assumes "one_at_a_time w" "run w es = Some w'" "Cleanup \<notin> set es"
  shows "one_at_a_time w'"
  using assms
proof (induction es arbitrary: w)
  case Nil
  then show ?case by simp
next
  case (Cons e es)
  then obtain w1 where w1: "step w e = Some w1" "run w1 es = Some w'"
    by (auto split: option.splits)
  with Cons.prems have "one_at_a_time w1"
    using one_at_a_time_step[of w e w1] by auto
  with Cons w1 show ?case by auto
qed

lemma delays_fired: "t < length (timers w) \<Longrightarrow> map fst ((timers w)[t := (fst (timers w ! t), s)]) = map fst (timers w)"
  by (simp add: map_update list_update_same_conv)

lemma backing_off_message:
  assumes "backing_off n0 w" "step w (Socket_message i d) = Some w'"
  shows "backing_off n0 w' \<and> length (timers w') = length (timers w)"
  using assms by (auto simp: backing_off_def onmessage_def delays_def pending_timer_def split: if_splits)

lemma backing_off_error:
  assumes "backing_off n0 w" "step w (Socket_error i) = Some w'"
  shows "backing_off n0 w' \<and> length (timers w') = length (timers w)"
  using assms by (auto simp: backing_off_def onerror_def delays_def pending_timer_def split: if_splits)

lemma backing_off_close:
  assumes "one_at_a_time w" "backing_off n0 w" "step w (Socket_close i) = Some w'"
  shows "backing_off n0 w' \<and> length (timers w') = Suc (length (timers w))"
proof -
  from assms(3) have i: "i < length (sockets w)" "sockets w ! i \<noteq> CLOSED"
    and w': "w' = onclose (w\<lparr>sockets := (sockets w)[i := CLOSED]\<rparr>)"
    by (auto split: if_splits)
  from i have "live_socket w" by (auto simp: live_socket_def)
  with assms(1) have np: "\<not> pending_timer w" by (auto simp: one_at_a_time_def)
  with assms(2) have count: "reconnectCountRef w = length (timers w) - n0" and n0: "n0 \<le> length (timers w)"
    and dr: "drop n0 (delays w) = map reconnect_timeout [0..<length (timers w) - n0]"
    by (auto simp: backing_off_def)
  have t': "timers w' = timers w @ [(reconnect_timeout (length (timers w) - n0), Pending)]"
    using w' count by (simp add: onclose_def)
  have p': "pending_timer w'"
    unfolding pending_timer_def t' by (auto intro!: exI[of _ "length (timers w)"])
  have "drop n0 (delays w') = map reconnect_timeout [0..<length (timers w') - n0]"
    using n0 dr by (simp add: delays_def t' Suc_diff_le)
  moreover have "\<forall>t<length (timers w'). snd (timers w' ! t) = Pending \<longrightarrow> n0 \<le> t"
    using np n0 unfolding t' pending_timer_def by (auto simp: nth_append)
  moreover have "reconnectCountRef w' = length (timers w') - n0 - (if pending_timer w' then 1 else 0)"
    using p' count w' n0 by (simp add: t') (simp add: onclose_def)
  moreover have "n0 \<le> length (timers w')" "length (timers w') = Suc (length (timers w))"
    using n0 by (simp_all add: t')
  ultimately show ?thesis
    unfolding backing_off_def by blast
qed

lemma backing_off_timer:
  assumes "one_at_a_time w" "backing_off n0 w" "step w (Timer_fires t) = Some w'"
  shows "backing_off n0 w' \<and> length (timers w') = length (timers w)"
proof -
  from assms(3) have t: "t < length (timers w)" "snd (timers w ! t) = Pending"
    and w': "w' = timer_callback (w\<lparr>timers := (timers w)[t := (fst (timers w ! t), Fired)]\<rparr>)"
    by (auto split: if_splits)
  from t have p: "pending_timer w" by (auto simp: pending_timer_def)
  from t assms(1) have last: "Suc t = length (timers w)"
    and only: "\<forall>u<length (timers w). snd (timers w ! u) = Pending \<longrightarrow> Suc u = length (timers w)"
    by (auto simp: one_at_a_time_def)
  from assms(2) t have n0: "n0 \<le> t" by (auto simp: backing_off_def)
  from assms(2) p have count: "reconnectCountRef w = length (timers w) - n0 - 1"
    and dr: "drop n0 (delays w) = map reconnect_timeout [0..<length (timers w) - n0]"
    by (auto simp: backing_off_def)
  have t': "timers w' = (timers w)[t := (fst (timers w ! t), Fired)]"
    and c': "reconnectCountRef w' = Suc (reconnectCountRef w)"
    using w' by (auto simp: timer_callback_def connect_def)
  have np': "\<not> pending_timer w'"
    unfolding pending_timer_def t' using only last by (auto simp: nth_list_update)
  have d': "delays w' = delays w"
    using t by (simp add: delays_def t' delays_fired)
  have len: "length (timers w') = length (timers w)"
    by (simp add: t')
  have "reconnectCountRef w' = length (timers w') - n0 - (if pending_timer w' then 1 else 0)"
    using np' n0 last count c' len by simp
  moreover have "\<forall>u<length (timers w'). snd (timers w' ! u) = Pending \<longrightarrow> n0 \<le> u"
    using np' by (auto simp: pending_timer_def)
  moreover have "drop n0 (delays w') = map reconnect_timeout [0..<length (timers w') - n0]"
    using d' dr len by simp
  moreover have "n0 \<le> length (timers w')"
    using n0 last len by simp
  ultimately show ?thesis
    unfolding backing_off_def using len by blast
qed


lemma backing_off_step:
  assumes "one_at_a_time w" "backing_off n0 w" "step w e = Some w'" "\<not> is_open e" "e \<noteq> Cleanup"
  shows "backing_off n0 w' \<and> length (timers w') = length (timers w) + (if is_close e then 1 else 0)"
proof (cases e)
  case (Socket_open i)
  with assms(4) show ?thesis by simp
next
  case (Socket_message i d)
  with assms(2,3) backing_off_message[of n0 w i d w'] show ?thesis by simp
next
  case (Socket_error i)
  with assms(2,3) backing_off_error[of n0 w i w'] show ?thesis by simp
next
  case (Socket_close i)
  with assms(1,2,3) backing_off_close[of w n0 i w'] show ?thesis by simp
next
  case (Timer_fires t)
  with assms(1,2,3) backing_off_timer[of w n0 t w'] show ?thesis by simp
next
  case Cleanup
  with assms(5) show ?thesis by simp
qed

lemma backing_off_run:
  assumes "one_at_a_time w" "backing_off n0 w" "run w es = Some w'"
    and "\<forall>e\<in>set es. \<not> is_open e \<and> e \<noteq> Cleanup"
  shows "backing_off n0 w' \<and> length (timers w') = length (timers w) + length (filter is_close es)"
  using assms
proof (induction es arbitrary: w)
  case Nil
  then show ?case by simp
next
  case (Cons e es)
  then obtain w1 where w1: "step w e = Some w1" "run w1 es = Some w'"
    by (auto split: option.splits)
  from Cons.prems have e: "\<not> is_open e" "e \<noteq> Cleanup" by auto
  have b1: "backing_off n0 w1" and l1: "length (timers w1) = length (timers w) + (if is_close e then 1 else 0)"
    using backing_off_step[OF Cons.prems(1,2) w1(1) e] by auto
  have o1: "one_at_a_time w1"
    using one_at_a_time_step[OF Cons.prems(1) w1(1) e(2)] .
  have "backing_off n0 w' \<and> length (timers w') = length (timers w1) + length (filter is_close es)"
    using Cons.IH[OF o1 b1 w1(2)] Cons.prems(4) by simp
  with l1 show ?case by simp
qed

lemma backing_off_start:
  assumes "reconnectCountRef w = 0" "\<not> pending_timer w"
  shows "backing_off (length (timers w)) w"
  using assms by (auto simp: backing_off_def pending_timer_def delays_def)

lemma reconnect_timeout_cap: "5 \<le> n \<Longrightarrow> reconnect_timeout n = 30000"
proof -
  assume "5 \<le> n"
  then have "(2::nat) ^ 5 \<le> 2 ^ n" by (intro power_increasing) auto
  then show ?thesis by (simp add: reconnect_timeout_def)
qed

lemma reconnect_timeout_first: "map reconnect_timeout [0..<8] = [1000, 2000, 4000, 8000, 16000, 30000, 30000, 30000]"
  by (simp add: reconnect_timeout_def upt_rec)


lemma after_open:
  assumes "one_at_a_time w" "step w (Socket_open i) = Some w'"
  shows "reconnectCountRef w' = 0 \<and> \<not> pending_timer w'"
proof -
  from assms(2) have i: "i < length (sockets w)"
    and w': "w' = onopen (w\<lparr>sockets := (sockets w)[i := OPEN]\<rparr>)"
    by (auto split: if_splits)
  from i w' have "live_socket w'"
    by (auto simp: live_socket_def onopen_def intro!: exI[of _ i])
  moreover have "one_at_a_time w'"
    using one_at_a_time_open[OF assms] .
  ultimately have "\<not> pending_timer w'"
    by (auto simp: one_at_a_time_def)
  with w' show ?thesis by (simp add: onopen_def)
qed

lemma fresh_start:
  assumes "run (mount ok) history = Some w0" "Cleanup \<notin> set history"
    and "history = [] \<or> is_open (last history)"
  shows "one_at_a_time w0 \<and> reconnectCountRef w0 = 0 \<and> \<not> pending_timer w0"
proof (cases "history = []")
  case True
  with assms(1) have "w0 = mount ok" by simp
  then show ?thesis
    using one_at_a_time_mount[of ok]
    by (auto simp: mount_def connect_def first_render_def pending_timer_def)
next
  case False
  with assms(3) obtain i where "last history = Socket_open i"
    by (cases "last history") auto
  with False obtain hs where h: "history = hs @ [Socket_open i]"
    by (metis append_butlast_last_id)
  with assms(1) have "run (mount ok) (hs @ [Socket_open i]) = Some w0"
    by simp
  then obtain w1 where w1: "run (mount ok) hs = Some w1"
      and st: "step w1 (Socket_open i) = Some w0"
    by (auto simp: run_append split: option.splits)
  have "Cleanup \<notin> set hs"
    using assms(2) h by auto
  then have "one_at_a_time w1"
    using one_at_a_time_run[OF one_at_a_time_mount w1] by simp
  then show ?thesis
    using after_open[OF _ st] one_at_a_time_open[OF _ st] by simp
qed

text \<open>
  C1. Take a mounted transport that has just been mounted or has just seen a connection
  open, and let it run through any events without another open (and without cleanup):
  closes, timer expiries, errors. Then the delays of the timers set since form the sequence
  of \<^verbatim>\<open>min(1000 * 2^k, 30000)\<close> for k = 0, 1, 2, ..., one per close: 1000, 2000, 4000, 8000,
  16000, 30000, 30000, ... milliseconds. An open resets the counter to 0, so the sequence
  starts again at 1000.
\<close>

theorem reconnect_delay_sequence:
  assumes "run (mount ok) (history @ es) = Some w"
    and "Cleanup \<notin> set (history @ es)"
    and "history = [] \<or> is_open (last history)"
    and "\<forall>e\<in>set es. \<not> is_open e"
  shows "(\<exists>w0. run (mount ok) history = Some w0 \<and> reconnectCountRef w0 = 0 \<and>
            drop (length (delays w0)) (delays w) = map reconnect_timeout [0..<length (filter is_close es)]) \<and>
         map reconnect_timeout [0..<8] = [1000, 2000, 4000, 8000, 16000, 30000, 30000, 30000] \<and>
         (\<forall>n\<ge>5. reconnect_timeout n = 30000)"
proof -
  from assms(1) obtain w0 where w0: "run (mount ok) history = Some w0" and w: "run w0 es = Some w"
    by (auto simp: run_append split: option.splits)
  have start: "one_at_a_time w0" "reconnectCountRef w0 = 0" "\<not> pending_timer w0"
    using fresh_start[OF w0 _ assms(3)] assms(2) by auto
  have "\<forall>e\<in>set es. \<not> is_open e \<and> e \<noteq> Cleanup"
    using assms(2,4) by auto
  from backing_off_run[OF start(1) backing_off_start[OF start(2,3)] w this]
  have "backing_off (length (timers w0)) w"
    and "length (timers w) = length (timers w0) + length (filter is_close es)"
    by auto
  then have "drop (length (delays w0)) (delays w) = map reconnect_timeout [0..<length (filter is_close es)]"
    by (simp add: backing_off_def delays_def)
  with w0 start(2) show ?thesis
    using reconnect_timeout_first reconnect_timeout_cap by blast
qed

text \<open>
  At a concrete trace: one close and reconnect, an open, then three closes. The delays are
  1000 before the open and 1000, 2000, 4000 after it.
\<close>

lemmas handler_defs = mount_def connect_def first_render_def onopen_def onclose_def onerror_def
  onmessage_def timer_callback_def reconnect_timeout_def cleanup_def socket_close_def clearTimeout_def

theorem reconnect_delay_sequence_witness:
  "\<exists>w0 w. run (mount True) [Socket_close 0, Timer_fires 0, Socket_open 1] = Some w0 \<and>
      run (mount True) ([Socket_close 0, Timer_fires 0, Socket_open 1] @
        [Socket_close 1, Timer_fires 1, Socket_error 2, Socket_close 2, Timer_fires 2, Socket_close 3]) = Some w \<and>
      reconnectCountRef w0 = 0 \<and> delays w0 = [1000] \<and> delays w = [1000, 1000, 2000, 4000] \<and>
      drop (length (delays w0)) (delays w) = map reconnect_timeout [0..<3]"
proof -
  let ?history = "[Socket_close 0, Timer_fires 0, Socket_open 1]"
  let ?es = "[Socket_close 1, Timer_fires 1, Socket_error 2, Socket_close 2, Timer_fires 2, Socket_close 3]"
  obtain w where w: "run (mount True) (?history @ ?es) = Some w"
    by (simp add: handler_defs)
  then have dw: "delays w = [1000, 1000, 2000, 4000]"
    by (auto simp: handler_defs delays_def)
  have "Cleanup \<notin> set (?history @ ?es)" "?history = [] \<or> is_open (last ?history)"
    "\<forall>e\<in>set ?es. \<not> is_open e"
    by simp_all
  from reconnect_delay_sequence[OF w this]
  obtain w0 where w0: "run (mount True) ?history = Some w0" "reconnectCountRef w0 = 0"
    "drop (length (delays w0)) (delays w) = map reconnect_timeout [0..<length (filter is_close ?es)]"
    by blast
  from w0(1) have d0: "delays w0 = [1000]"
    by (auto simp: handler_defs delays_def)
  have "length (filter is_close ?es) = 3"
    by simp
  with w0(3) have "drop (length (delays w0)) (delays w) = map reconnect_timeout [0..<3]"
    by (simp only:)
  with w w0(1,2) dw d0 show ?thesis
    by blast
qed


text \<open>
  C2. The cleanup closes the socket of \<^verbatim>\<open>wsRef\<close> and clears the timer of
  \<^verbatim>\<open>reconnectTimeoutRef\<close>, but \<^verbatim>\<open>onclose\<close> stays attached to the socket. When the connection
  is live at cleanup, the close event of that socket arrives after the cleanup, sets a new
  timer that nothing clears, and the callback constructs a second socket. When the
  connection was already lost, the cleanup cancels the pending timer and nothing follows.
\<close>

theorem cleanup_leaks_reconnect:
  "(\<exists>w. run (mount True) [Socket_open 0, Cleanup, Socket_close 0, Timer_fires 0] = Some w \<and>
        sockets w = [CLOSED, CONNECTING] \<and> timers w = [(1000, Fired)] \<and> wsRef w = Some 1) \<and>
   run (mount True) [Socket_close 0, Cleanup, Timer_fires 0] = None"
  by (simp add: handler_defs)

section \<open>The claims about inbound messages\<close>

text \<open>
  C3. A frame that \<^verbatim>\<open>JSON.parse\<close> rejects changes nothing but \<^verbatim>\<open>lastMessage\<close>: the effect ends
  normally with \<^verbatim>\<open>stocks\<close> as it was, the connection status, the sockets, the timers and the
  refs of the transport are the same, and the socket still delivers the next frame.
\<close>

theorem malformed_frame_is_dropped:
  assumes "JSON_parse raw = None" and "step w (Socket_message i raw) = Some w'"
  shows "process_message JSON_parse (lastMessage w') stocks = Inr stocks \<and>
         lastMessage w' = Some raw \<and>
         connectionStatus w' = connectionStatus w \<and> sockets w' = sockets w \<and>
         timers w' = timers w \<and> wsRef w' = wsRef w \<and>
         reconnectTimeoutRef w' = reconnectTimeoutRef w \<and>
         reconnectCountRef w' = reconnectCountRef w \<and>
         step w' (Socket_message i next_frame) = Some (onmessage next_frame w')"
  using assms
  by (auto simp: process_message_def try_block_def onmessage_def split: if_splits)

theorem malformed_frame_is_dropped_witness:
  "\<exists>w w'. run (mount True) [Socket_open 0] = Some w \<and>
      step w (Socket_message 0 ''{oops'') = Some w' \<and>
      example_parse ''{oops'' = None \<and>
      process_message example_parse (lastMessage w') (Some (JArray [JNumber 7])) = Inr (Some (JArray [JNumber 7])) \<and>
      connectionStatus w' = Status_connected \<and> sockets w' = [OPEN] \<and> timers w' = [] \<and>
      step w' (Socket_message 0 ''data'') = Some (onmessage ''data'' w')"
proof -
  obtain w where w: "run (mount True) [Socket_open 0] = Some w"
    by (simp add: handler_defs)
  then have open_now: "connectionStatus w = Status_connected" "sockets w = [OPEN]" "timers w = []"
    by (auto simp: handler_defs)
  then obtain w' where w': "step w (Socket_message 0 ''{oops'') = Some w'"
    by simp
  have rejected: "example_parse ''{oops'' = None"
    by (simp add: example_parse_def)
  note dropped = malformed_frame_is_dropped[where JSON_parse = example_parse and raw = "''{oops''"
      and w = w and w' = w' and i = 0 and stocks = "Some (JArray [JNumber 7])"
      and next_frame = "''data''", OF rejected w']
  from dropped have "process_message example_parse (lastMessage w') (Some (JArray [JNumber 7]))
      = Inr (Some (JArray [JNumber 7]))"
    by blast
  moreover from dropped have "step w' (Socket_message 0 ''data'') = Some (onmessage ''data'' w')"
    by blast
  moreover from dropped open_now
  have "connectionStatus w' = Status_connected" "sockets w' = [OPEN]" "timers w' = []"
    by auto
  ultimately show ?thesis
    using w w' rejected by blast
qed

text \<open>
  C10. A parsed message whose \<^verbatim>\<open>type\<close> is not the string \<^verbatim>\<open>'market_data'\<close> leaves \<^verbatim>\<open>stocks\<close>
  as it was, whether the type is \<^verbatim>\<open>'market_status'\<close>, \<^verbatim>\<open>'error'\<close>, anything else, missing, or
  the message is \<^verbatim>\<open>null\<close>; a \<^verbatim>\<open>'market_data'\<close> message replaces \<^verbatim>\<open>stocks\<close> by its \<^verbatim>\<open>data\<close>.
\<close>

theorem only_market_data_replaces_stocks:
  assumes "JSON_parse raw = Some message"
  shows "(get_property message ''type'' \<noteq> Inr (Some (JString ''market_data'')) \<longrightarrow>
            process_message JSON_parse (Some raw) stocks = Inr stocks) \<and>
         (get_property message ''type'' = Inr (Some (JString ''market_data'')) \<and> raw \<noteq> [] \<longrightarrow>
            (\<exists>data. get_property message ''data'' = Inr data \<and>
                process_message JSON_parse (Some raw) stocks = Inr data))"
  using assms
  by (cases message) (auto simp: process_message_def try_block_def split: sum.splits)

theorem only_market_data_replaces_stocks_witness:
  "process_message example_parse (Some ''status'') (Some (JArray [JNumber 7])) = Inr (Some (JArray [JNumber 7])) \<and>
   process_message example_parse (Some ''error'') (Some (JArray [JNumber 7])) = Inr (Some (JArray [JNumber 7])) \<and>
   process_message example_parse (Some ''null'') (Some (JArray [JNumber 7])) = Inr (Some (JArray [JNumber 7])) \<and>
   process_message example_parse (Some ''data'') (Some (JArray [JNumber 7])) = Inr (Some (JArray [JNumber 1]))"
  using only_market_data_replaces_stocks[of example_parse "''status''"
      "JObject [(''type'', JString ''market_status''), (''data'', JString ''open'')]" "Some (JArray [JNumber 7])"]
    only_market_data_replaces_stocks[of example_parse "''error''"
      "JObject [(''type'', JString ''error''), (''data'', JString ''upstream'')]" "Some (JArray [JNumber 7])"]
    only_market_data_replaces_stocks[of example_parse "''null''" JNull "Some (JArray [JNumber 7])"]
    only_market_data_replaces_stocks[of example_parse "''data''"
      "JObject [(''type'', JString ''market_data''), (''data'', JArray [JNumber 1])]" "Some (JArray [JNumber 7])"]
  by (simp add: example_parse_def)

section \<open>Properties of the effect on the store\<close>

lemma effect_result:
  assumes "s < length (arrays h)" and "filter_and_sort_effect s c f h = (r, h')"
  shows "arrays h' ! r = compute (arrays h ! s) (sort_configs h ! c) (filter_configs h ! f) \<and>
         r = Suc (Suc (length (arrays h))) \<and> length (arrays h') = Suc (Suc (Suc (length (arrays h)))) \<and>
         take (length (arrays h)) (arrays h') = arrays h \<and>
         sort_configs h' = sort_configs h \<and> filter_configs h' = filter_configs h"
  using assms
  by (auto simp: filter_and_sort_effect_def spread_copy_def filter_array_def sort_in_place_def
      slice_array_def new_array_def compute_def filter_step_def sort_step_def truncate_step_def
      nth_append Let_def)


lemma nth_of_take: "take n ys = xs \<Longrightarrow> i < n \<Longrightarrow> ys ! i = xs ! i"
  by (metis nth_take)

lemma run_effect_props:
  assumes wf: "well_formed (a, h)" and run: "run_effect (a, h) = (a', h')"
  shows "well_formed (a', h') \<and>
         effect_deps a' = Some (stocks_ref a', sortConfig_ref a', filterConfig_ref a') \<and>
         stocks_ref a' = stocks_ref a \<and> sortConfig_ref a' = sortConfig_ref a \<and>
         filterConfig_ref a' = filterConfig_ref a \<and>
         take (length (arrays h)) (arrays h') = arrays h \<and>
         sort_configs h' = sort_configs h \<and> filter_configs h' = filter_configs h"
proof (cases "effect_deps a = Some (stocks_ref a, sortConfig_ref a, filterConfig_ref a)")
  case True
  with run have "a' = a" "h' = h" by (auto simp: run_effect_def)
  with wf True show ?thesis by simp
next
  case False
  obtain r h1 where eff: "filter_and_sort_effect (stocks_ref a) (sortConfig_ref a) (filterConfig_ref a) h = (r, h1)"
    by (cases "filter_and_sort_effect (stocks_ref a) (sortConfig_ref a) (filterConfig_ref a) h")
  with False run have a': "a' = a\<lparr>filteredStocks_ref := r,
        effect_deps := Some (stocks_ref a, sortConfig_ref a, filterConfig_ref a)\<rparr>" and h': "h' = h1"
    by (auto simp: run_effect_def Let_def)
  from wf have valid: "stocks_ref a < length (arrays h)" "sortConfig_ref a < length (sort_configs h)"
      "filterConfig_ref a < length (filter_configs h)"
    by (auto simp: well_formed_def)
  note res = effect_result[OF valid(1) eff]
  from res have r: "arrays h1 ! r = compute (arrays h ! stocks_ref a) (sort_configs h ! sortConfig_ref a)
        (filter_configs h ! filterConfig_ref a)"
    and len: "r < length (arrays h1)" "length (arrays h) \<le> length (arrays h1)"
    and frame: "take (length (arrays h)) (arrays h1) = arrays h"
      "sort_configs h1 = sort_configs h" "filter_configs h1 = filter_configs h"
    by auto
  have same: "arrays h1 ! stocks_ref a = arrays h ! stocks_ref a"
    using nth_of_take[OF frame(1) valid(1)] .
  have "well_formed (a', h')"
    using valid len r same frame(2,3) by (simp add: well_formed_def a' h')
  with frame show ?thesis by (simp add: a' h')
qed

lemma setStocks_props:
  assumes wf: "well_formed (a, h)" and set: "setStocks data (a, h) = (a', h')"
  shows "well_formed (a', h') \<and> inputs_of (a', h') = apply_action (Market_data data) (inputs_of (a, h)) \<and>
         take (length (arrays h)) (arrays h') = arrays h \<and>
         sort_configs h' = sort_configs h \<and> filter_configs h' = filter_configs h"
  using assms
  by (auto simp: setStocks_def well_formed_def inputs_of_def nth_append split: option.splits)

lemma handleSort_props:
  assumes wf: "well_formed (a, h)" and set: "handleSort k (a, h) = (a', h')"
  shows "well_formed (a', h') \<and> inputs_of (a', h') = apply_action (Sort_by k) (inputs_of (a, h)) \<and>
         arrays h' = arrays h \<and>
         take (length (sort_configs h)) (sort_configs h') = sort_configs h \<and>
         filter_configs h' = filter_configs h"
  using assms
  by (auto simp: handleSort_def well_formed_def inputs_of_def nth_append Let_def split: option.splits)

lemma setFilterConfig_props:
  assumes wf: "well_formed (a, h)" and set: "setFilterConfig update (a, h) = (a', h')"
  shows "well_formed (a', h') \<and> inputs_of (a', h') = apply_action (Set_filter update) (inputs_of (a, h)) \<and>
         arrays h' = arrays h \<and> sort_configs h' = sort_configs h \<and>
         take (length (filter_configs h)) (filter_configs h') = filter_configs h"
  using assms
  by (auto simp: setFilterConfig_def well_formed_def inputs_of_def nth_append Let_def split: option.splits)


lemma take_extend:
  assumes "take (length xs) ys = xs" and "take (length ys) zs = ys"
  shows "take (length xs) zs = xs"
proof -
  from arg_cong[OF assms(1), of length] have "length xs \<le> length ys"
    by simp
  then have "take (length xs) zs = take (length xs) (take (length ys) zs)"
    by (simp add: min_def)
  with assms show ?thesis by simp
qed

lemma setter_props:
  assumes wf: "well_formed (a, h)"
    and set: "(case act of Market_data data \<Rightarrow> setStocks data | Sort_by k \<Rightarrow> handleSort k
                | Set_filter update \<Rightarrow> setFilterConfig update) (a, h) = (a1, h1)"
  shows "well_formed (a1, h1) \<and> inputs_of (a1, h1) = apply_action act (inputs_of (a, h)) \<and>
         take (length (arrays h)) (arrays h1) = arrays h \<and>
         take (length (sort_configs h)) (sort_configs h1) = sort_configs h \<and>
         take (length (filter_configs h)) (filter_configs h1) = filter_configs h"
proof (cases act)
  case (Market_data data)
  with setStocks_props[OF wf, of data a1 h1] set show ?thesis by simp
next
  case (Sort_by k)
  with handleSort_props[OF wf, of k a1 h1] set show ?thesis by simp
next
  case (Set_filter update)
  with setFilterConfig_props[OF wf, of update a1 h1] set show ?thesis by simp
qed

lemma dispatch_setter:
  "dispatch s act = run_effect ((case act of Market_data data \<Rightarrow> setStocks data | Sort_by k \<Rightarrow> handleSort k
                | Set_filter update \<Rightarrow> setFilterConfig update) s)"
  by (cases act) simp_all

lemma dispatch_props:
  assumes wf: "well_formed (a, h)" and d: "dispatch (a, h) act = (a', h')"
  shows "well_formed (a', h') \<and>
         inputs_of (a', h') = apply_action act (inputs_of (a, h)) \<and>
         view_of (a', h') = compute_of (inputs_of (a', h')) \<and>
         take (length (arrays h)) (arrays h') = arrays h \<and>
         take (length (sort_configs h)) (sort_configs h') = sort_configs h \<and>
         take (length (filter_configs h)) (filter_configs h') = filter_configs h"
proof -
  obtain a1 h1 where set: "(case act of Market_data data \<Rightarrow> setStocks data | Sort_by k \<Rightarrow> handleSort k
                | Set_filter update \<Rightarrow> setFilterConfig update) (a, h) = (a1, h1)"
    by (meson surj_pair)
  note s1 = setter_props[OF wf set]
  from d set have run: "run_effect (a1, h1) = (a', h')"
    by (simp add: dispatch_setter)
  from s1 have wf1: "well_formed (a1, h1)" by blast
  note e = run_effect_props[OF wf1 run]
  from e have wf': "well_formed (a', h')"
    and deps: "effect_deps a' = Some (stocks_ref a', sortConfig_ref a', filterConfig_ref a')"
    and refs: "stocks_ref a' = stocks_ref a1" "sortConfig_ref a' = sortConfig_ref a1"
      "filterConfig_ref a' = filterConfig_ref a1"
    and frame: "take (length (arrays h1)) (arrays h') = arrays h1"
      "sort_configs h' = sort_configs h1" "filter_configs h' = filter_configs h1"
    by blast+
  from wf1 have "stocks_ref a1 < length (arrays h1)"
    by (simp add: well_formed_def)
  from nth_of_take[OF frame(1) this] refs frame(2,3)
  have "inputs_of (a', h') = inputs_of (a1, h1)"
    by (simp add: inputs_of_def)
  with s1 have inputs: "inputs_of (a', h') = apply_action act (inputs_of (a, h))"
    by simp
  from wf' deps have fresh: "view_of (a', h') = compute_of (inputs_of (a', h'))"
    by (simp add: well_formed_def view_of_def inputs_of_def compute_of_def)
  from s1 frame have "take (length (arrays h)) (arrays h') = arrays h"
    "take (length (sort_configs h)) (sort_configs h') = sort_configs h"
    "take (length (filter_configs h)) (filter_configs h') = filter_configs h"
    using take_extend[of "arrays h" "arrays h1" "arrays h'"] by auto
  with wf' inputs fresh show ?thesis by blast
qed

lemma well_formed_first_paint:
  "well_formed first_paint \<and> view_of first_paint = compute_of (inputs_of first_paint)"
proof -
  have wf: "well_formed (fst initial_app, snd initial_app)"
    by (simp add: initial_app_def well_formed_def)
  obtain a h where p: "first_paint = (a, h)" by (meson surj_pair)
  then have "run_effect (fst initial_app, snd initial_app) = (a, h)"
    by (simp add: first_paint_def)
  from run_effect_props[OF wf this] have wf': "well_formed (a, h)"
    and deps: "effect_deps a = Some (stocks_ref a, sortConfig_ref a, filterConfig_ref a)"
    by blast+
  from wf' deps have "view_of (a, h) = compute_of (inputs_of (a, h))"
    by (simp add: well_formed_def view_of_def inputs_of_def compute_of_def)
  with wf' show ?thesis
    by (simp add: p)
qed

lemma well_formed_foldl:
  "well_formed s \<Longrightarrow> well_formed (foldl dispatch s actions)"
proof (induction actions arbitrary: s)
  case Nil
  then show ?case by simp
next
  case (Cons act actions)
  obtain a h where s: "s = (a, h)" by (meson surj_pair)
  obtain a' h' where d: "dispatch (a, h) act = (a', h')" by (meson surj_pair)
  from Cons.prems s dispatch_props[OF _ d] have "well_formed (dispatch s act)"
    using d by simp
  then show ?case using Cons.IH by simp
qed

lemma effect_deterministic:
  assumes "s1 < length (arrays g1)" and "s2 < length (arrays g2)"
    and "arrays g1 ! s1 = arrays g2 ! s2" and "sort_configs g1 ! c1 = sort_configs g2 ! c2"
    and "filter_configs g1 ! f1 = filter_configs g2 ! f2"
    and "filter_and_sort_effect s1 c1 f1 g1 = (r1, g1')"
    and "filter_and_sort_effect s2 c2 f2 g2 = (r2, g2')"
  shows "arrays g1' ! r1 = arrays g2' ! r2"
proof -
  from effect_result[OF assms(1,6)]
  have "arrays g1' ! r1 = compute (arrays g1 ! s1) (sort_configs g1 ! c1) (filter_configs g1 ! f1)"
    by blast
  moreover from effect_result[OF assms(2,7)]
  have "arrays g2' ! r2 = compute (arrays g2 ! s2) (sort_configs g2 ! c2) (filter_configs g2 ! f2)"
    by blast
  ultimately show ?thesis
    using assms(3,4,5) by simp
qed


lemma fresh_foldl:
  "well_formed (foldl dispatch first_paint actions) \<and>
   view_of (foldl dispatch first_paint actions) = compute_of (inputs_of (foldl dispatch first_paint actions))"
proof (induction actions rule: rev_induct)
  case Nil
  show ?case using well_formed_first_paint by simp
next
  case (snoc act actions)
  obtain a h where s: "foldl dispatch first_paint actions = (a, h)" by (meson surj_pair)
  obtain a' h' where d: "dispatch (a, h) act = (a', h')" by (meson surj_pair)
  from snoc s have "well_formed (a, h)" by simp
  from dispatch_props[OF this d] show ?case
    by (simp add: s d)
qed

text \<open>
  C7. In every state that the page reaches, the list on display is the computation on the
  current snapshots, sort configuration and filter configuration, and after any action
  (new snapshots, a new sort configuration or a new filter configuration) it is the
  computation on the new inputs. An action, with the run of the effect that follows,
  leaves every array and every configuration object that existed before as it was. Two
  runs of the effect on equal inputs, in any two stores, give equal lists and change no
  object of their stores.
\<close>

theorem derived_view_pure_and_fresh:
  assumes "foldl dispatch first_paint actions = (a, h)"
    and "dispatch (a, h) act = (a', h')"
  shows "view_of (a, h) = compute_of (inputs_of (a, h)) \<and>
         inputs_of (a', h') = apply_action act (inputs_of (a, h)) \<and>
         view_of (a', h') = compute_of (apply_action act (inputs_of (a, h))) \<and>
         take (length (arrays h)) (arrays h') = arrays h \<and>
         take (length (sort_configs h)) (sort_configs h') = sort_configs h \<and>
         take (length (filter_configs h)) (filter_configs h') = filter_configs h \<and>
         (\<forall>g1 g2 s1 s2 c1 c2 f1 f2 r1 r2 g1' g2'.
            s1 < length (arrays g1) \<and> s2 < length (arrays g2) \<and>
            arrays g1 ! s1 = arrays g2 ! s2 \<and> sort_configs g1 ! c1 = sort_configs g2 ! c2 \<and>
            filter_configs g1 ! f1 = filter_configs g2 ! f2 \<and>
            filter_and_sort_effect s1 c1 f1 g1 = (r1, g1') \<and>
            filter_and_sort_effect s2 c2 f2 g2 = (r2, g2') \<longrightarrow>
              arrays g1' ! r1 = arrays g2' ! r2 \<and>
              take (length (arrays g1)) (arrays g1') = arrays g1 \<and>
              sort_configs g1' = sort_configs g1 \<and> filter_configs g1' = filter_configs g1)"
proof -
  from fresh_foldl[of actions] assms(1)
  have wf: "well_formed (a, h)" and now: "view_of (a, h) = compute_of (inputs_of (a, h))"
    by simp_all
  note d = dispatch_props[OF wf assms(2)]
  from d have "view_of (a', h') = compute_of (apply_action act (inputs_of (a, h)))"
    by simp
  moreover have "arrays g1' ! r1 = arrays g2' ! r2 \<and>
      take (length (arrays g1)) (arrays g1') = arrays g1 \<and>
      sort_configs g1' = sort_configs g1 \<and> filter_configs g1' = filter_configs g1"
    if "s1 < length (arrays g1)" "s2 < length (arrays g2)"
      "arrays g1 ! s1 = arrays g2 ! s2" "sort_configs g1 ! c1 = sort_configs g2 ! c2"
      "filter_configs g1 ! f1 = filter_configs g2 ! f2"
      "filter_and_sort_effect s1 c1 f1 g1 = (r1, g1')"
      "filter_and_sort_effect s2 c2 f2 g2 = (r2, g2')"
    for g1 g2 s1 s2 c1 c2 f1 f2 r1 r2 g1' g2'
    using effect_deterministic[OF that] effect_result[OF that(1,6)] by blast
  ultimately show ?thesis
    using now d by blast
qed

theorem derived_view_pure_and_fresh_witness:
  "\<exists>a h a' h'.
      foldl dispatch first_paint [Market_data [row ''CCC'' 10 5 7, row ''AAA'' 11 5 9, row ''BBB'' 12 5 7]] = (a, h) \<and>
      dispatch (a, h) (Sort_by Symbol) = (a', h') \<and>
      map symbol (view_of (a, h)) = [''AAA'', ''CCC'', ''BBB''] \<and>
      map symbol (view_of (a', h')) = [''AAA'', ''BBB'', ''CCC''] \<and>
      map symbol (arrays h' ! stocks_ref a') = [''CCC'', ''AAA'', ''BBB'']"
proof -
  let ?data = "[row ''CCC'' 10 5 7, row ''AAA'' 11 5 9, row ''BBB'' 12 5 7]"
  obtain a0 h0 where p: "foldl dispatch first_paint [] = (a0, h0)" by (meson surj_pair)
  obtain a h where s: "dispatch (a0, h0) (Market_data ?data) = (a, h)" by (meson surj_pair)
  obtain a' h' where s': "dispatch (a, h) (Sort_by Symbol) = (a', h')" by (meson surj_pair)
  have i0: "inputs_of (a0, h0) = ([], initial_sortConfig, initial_filterConfig)"
    using p
    by (auto simp: first_paint_def initial_app_def run_effect_def filter_and_sort_effect_def
        spread_copy_def filter_array_def sort_in_place_def slice_array_def new_array_def
        inputs_of_def Let_def)
  from derived_view_pure_and_fresh[OF p s]
  have i1: "inputs_of (a, h) = apply_action (Market_data ?data) (inputs_of (a0, h0))"
    by blast
  have f: "foldl dispatch first_paint [Market_data ?data] = (a, h)"
    using p s by simp
  note t = derived_view_pure_and_fresh[OF f s']
  have data: "compute ?data initial_sortConfig initial_filterConfig
      = [row ''AAA'' 11 5 9, row ''CCC'' 10 5 7, row ''BBB'' 12 5 7]"
    "compute ?data \<lparr>key = Symbol, direction = Asc\<rparr> initial_filterConfig
      = [row ''AAA'' 11 5 9, row ''BBB'' 12 5 7, row ''CCC'' 10 5 7]"
    by (simp_all add: compute_def filter_step_def sort_step_def truncate_step_def array_sort_def
        array_slice_def relative_index_def compare_stocks_def js_greater_def passes_filter_def js_ge_def
        initial_sortConfig_def initial_filterConfig_def row_def)
  from t have "view_of (a, h) = compute_of (inputs_of (a, h))"
    by blast
  with i0 i1 data(1) have v: "map symbol (view_of (a, h)) = [''AAA'', ''CCC'', ''BBB'']"
    by (simp add: compute_of_def row_def)
  from t have "view_of (a', h') = compute_of (apply_action (Sort_by Symbol) (inputs_of (a, h)))"
    by blast
  with i0 i1 data(2) have v': "map symbol (view_of (a', h')) = [''AAA'', ''BBB'', ''CCC'']"
    by (simp add: compute_of_def row_def initial_sortConfig_def)
  from t have "inputs_of (a', h') = apply_action (Sort_by Symbol) (inputs_of (a, h))"
    by blast
  with i0 i1 have kept: "map symbol (arrays h' ! stocks_ref a') = [''CCC'', ''AAA'', ''BBB'']"
    by (simp add: inputs_of_def row_def)
  have "foldl dispatch first_paint [Market_data ?data] = (a, h) \<and>
      dispatch (a, h) (Sort_by Symbol) = (a', h') \<and>
      map symbol (view_of (a, h)) = [''AAA'', ''CCC'', ''BBB''] \<and>
      map symbol (view_of (a', h')) = [''AAA'', ''BBB'', ''CCC''] \<and>
      map symbol (arrays h' ! stocks_ref a') = [''CCC'', ''AAA'', ''BBB'']"
    using f s' v v' kept by (intro conjI)
  then show ?thesis
    by (intro exI)
qed

section \<open>The claim about the statistics\<close>

text \<open>Rules that evaluate the rounding on numerals.\<close>

lemma floor_rat_numeral: "\<lfloor>(numeral a :: rat) / numeral b\<rfloor> = numeral a div numeral b"
  by (metis floor_divide_of_int_eq of_int_numeral)

lemmas double_eval = to_double_def round_magnitude_def round_half_even_def pow2_def
  scale_up.simps scale_down.simps Let_def floor_rat_numeral

text \<open>
  The integers from 0 to \<^verbatim>\<open>2^53\<close> are doubles: scaling multiplies an integer by a power of
  two, the rounding leaves the integer product as it is, and the power divides out.
\<close>

lemma round_half_even_int: "round_half_even (of_int m) = m"
  by (simp add: round_half_even_def)

lemma scale_up_exact:
  "scale_up a e = (b, e') \<Longrightarrow> e' \<le> e \<and> b = a * 2 ^ nat (e - e')"
proof (induction a e arbitrary: b e' rule: scale_up.induct)
  case (1 a e)
  show ?case
  proof (cases "a < 2 ^ 52 \<and> - 1074 < e")
    case True
    then have "scale_up a e = scale_up (2 * a) (e - 1)"
      by (subst scale_up.simps) simp
    with "1.prems" have "scale_up (2 * a) (e - 1) = (b, e')"
      by simp
    from "1.IH"[OF True this] have e': "e' \<le> e - 1" and b: "b = 2 * a * 2 ^ nat (e - 1 - e')"
      by auto
    then have "nat (e - e') = Suc (nat (e - 1 - e'))" by simp
    with b e' show ?thesis by simp
  next
    case False
    then have "scale_up a e = (a, e)"
      by (subst scale_up.simps) auto
    with "1.prems" show ?thesis by simp
  qed
qed

lemma to_double_0: "to_double 0 = Finite 0"
  by (simp add: to_double_def)

lemma to_double_2_53: "to_double (2 ^ 53) = Finite (2 ^ 53)"
  by (simp add: double_eval)

lemma integers_are_doubles:
  assumes "0 \<le> n" and "n \<le> 2 ^ 53"
  shows "is_double (of_int n)"
  unfolding is_double_def
proof -
  consider "n = 0" | "n = 2 ^ 53" | "0 < n" "n < 2 ^ 53"
    using assms by linarith
  then show "to_double (of_int n) = Finite (of_int n)"
  proof cases
    case 1
    then show ?thesis by (simp add: to_double_0)
  next
    case 2
    then have "(of_int n :: rat) = 2 ^ 53" by simp
    then show ?thesis by (simp only: to_double_2_53)
  next
    case 3
    then have "(of_int n :: rat) < of_int (2 ^ 53)"
      by (simp only: of_int_less_iff)
    then have small: "\<not> (2 ^ 53 \<le> (of_int n :: rat))"
      by simp
    then have d: "scale_down (of_int n) 0 = (of_int n, 0)"
      by (subst scale_down.simps) simp
    obtain b e where s: "scale_up (of_int n) 0 = (b, e)" by (meson surj_pair)
    from scale_up_exact[OF s] have e: "e \<le> 0" and b: "b = of_int n * 2 ^ nat (- e)"
      by auto
    have "b = of_int (n * 2 ^ nat (- e))" by (simp add: b)
    then have r: "round_half_even b = n * 2 ^ nat (- e)"
      by (simp only: round_half_even_int)
    have "pow2 e = 1 / 2 ^ nat (- e)"
      using e by (auto simp: pow2_def)
    with r have "of_int (round_half_even b) * pow2 e = (of_int n :: rat)"
      by simp
    then have m: "round_magnitude (of_int n) = of_int n"
      by (simp add: round_magnitude_def d s)
    have "(of_int n :: rat) < of_int (2 ^ 1024)"
      using 3(2) by (simp only: of_int_less_iff) simp
    then have "\<not> (2 ^ 1024 \<le> (of_int n :: rat))"
      by simp
    with m 3(1) show ?thesis
      by (simp add: to_double_def)
  qed
qed

text \<open>A sum from the left is exact as long as every partial sum is a double.\<close>

lemma foldl_fadd_map:
  "foldl (\<lambda>sum stock. fadd sum (Finite (f stock))) z stocks = foldl fadd z (map (\<lambda>x. Finite (f x)) stocks)"
  by (induction stocks arbitrary: z) simp_all

lemma foldl_fadd_exact:
  assumes "\<And>k. k \<le> length xs \<Longrightarrow> is_double (a + sum_list (take k xs))"
  shows "foldl fadd (Finite a) (map Finite xs) = Finite (a + sum_list xs)"
  using assms
proof (induction xs arbitrary: a)
  case Nil
  show ?case by simp
next
  case (Cons x xs)
  from Cons.prems[of 1] have "fadd (Finite a) (Finite x) = Finite (a + x)"
    by (simp add: is_double_def)
  moreover have "is_double (a + x + sum_list (take k xs))" if "k \<le> length xs" for k
    using Cons.prems[of "Suc k"] that by (simp add: add.assoc)
  ultimately show ?case
    using Cons.IH[of "a + x"] by (simp add: add.assoc)
qed

lemma sum_list_take_le:
  fixes xs :: "int list"
  assumes "\<forall>x\<in>set xs. 0 \<le> x"
  shows "0 \<le> sum_list (take k xs) \<and> sum_list (take k xs) \<le> sum_list xs"
proof -
  have "sum_list xs = sum_list (take k xs) + sum_list (drop k xs)"
    by (metis append_take_drop_id sum_list_append)
  moreover have "0 \<le> sum_list (drop k xs)"
    using assms by (intro sum_list_nonneg) (auto dest: in_set_dropD)
  moreover have "0 \<le> sum_list (take k xs)"
    using assms by (intro sum_list_nonneg) (auto dest: in_set_takeD)
  ultimately show ?thesis by simp
qed

lemma of_int_sum_list_rat: "(of_int (sum_list xs) :: rat) = sum_list (map of_int xs)"
  by (induction xs) simp_all

lemma integer_total_exact:
  fixes f :: "snapshot \<Rightarrow> int"
  assumes "\<forall>x\<in>set stocks. 0 \<le> f x" and "sum_list (map f stocks) \<le> 2 ^ 53"
  shows "foldl fadd (Finite 0) (map (\<lambda>x. Finite (of_int (f x))) stocks)
       = Finite (of_int (sum_list (map f stocks)))"
proof -
  let ?xs = "map (\<lambda>x. (of_int (f x) :: rat)) stocks"
  have "is_double (0 + sum_list (take k ?xs))" for k
  proof -
    have "sum_list (take k ?xs) = of_int (sum_list (take k (map f stocks)))"
      by (simp add: take_map of_int_sum_list_rat comp_def)
    moreover have "0 \<le> sum_list (take k (map f stocks)) \<and> sum_list (take k (map f stocks)) \<le> 2 ^ 53"
      using sum_list_take_le[of "map f stocks" k] assms by auto
    ultimately show ?thesis
      using integers_are_doubles by simp
  qed
  from foldl_fadd_exact[of ?xs 0, OF this]
  have "foldl fadd (Finite 0) (map Finite ?xs) = Finite (sum_list ?xs)"
    by simp
  then show ?thesis
    by (simp add: comp_def of_int_sum_list_rat)
qed

lemma stats_fields:
  assumes "stocks \<noteq> []"
  shows "\<exists>s. stats stocks = Some s \<and>
     totalVolume s = foldl fadd (Finite 0) (map (\<lambda>x. Finite (of_int (volume x))) stocks) \<and>
     totalTrades s = foldl fadd (Finite 0) (map (\<lambda>x. Finite (of_int (trade_count x))) stocks) \<and>
     avgPrice s = fdiv (foldl fadd (Finite 0) (map (\<lambda>x. Finite (current_price x)) stocks))
                    (Finite (of_nat (length stocks)))"
  using assms by (simp add: stats_def Let_def foldl_fadd_map)


lemma fdiv_count: "0 < n \<Longrightarrow> fdiv (Finite a) (Finite (of_nat n)) = to_double (a / of_nat n)"
  by simp

text \<open>
  C9. For an empty list the statistics are \<^verbatim>\<open>null\<close>, and no average is computed. For a list
  that is not empty they exist: totalVolume and totalTrades are the sums of the volumes and
  of the trade counts taken from the left in double arithmetic, which are the exact sums
  when the counts are not negative and the sum is at most \<^verbatim>\<open>2^53\<close>; avgPrice is the sum of the
  prices from the left in double arithmetic, divided by the number of rows and rounded,
  which is the double nearest to the mean when every partial sum of the prices is a double.
\<close>

theorem stats_guard_and_double_totals:
  "stats [] = None \<and>
   (stocks \<noteq> [] \<longrightarrow>
      (\<exists>s. stats stocks = Some s \<and>
         totalVolume s = foldl fadd (Finite 0) (map (\<lambda>x. Finite (of_int (volume x))) stocks) \<and>
         totalTrades s = foldl fadd (Finite 0) (map (\<lambda>x. Finite (of_int (trade_count x))) stocks) \<and>
         avgPrice s = fdiv (foldl fadd (Finite 0) (map (\<lambda>x. Finite (current_price x)) stocks))
                        (Finite (of_nat (length stocks))) \<and>
         ((\<forall>x\<in>set stocks. 0 \<le> volume x) \<and> sum_list (map volume stocks) \<le> 2 ^ 53 \<longrightarrow>
            totalVolume s = Finite (of_int (sum_list (map volume stocks)))) \<and>
         ((\<forall>x\<in>set stocks. 0 \<le> trade_count x) \<and> sum_list (map trade_count stocks) \<le> 2 ^ 53 \<longrightarrow>
            totalTrades s = Finite (of_int (sum_list (map trade_count stocks)))) \<and>
         ((\<forall>k\<le>length stocks. is_double (sum_list (map current_price (take k stocks)))) \<longrightarrow>
            avgPrice s = to_double (sum_list (map current_price stocks) / of_nat (length stocks)))))"
proof -
  have empty: "stats [] = None"
    by (simp add: stats_def)
  have filled: "\<exists>s. stats stocks = Some s \<and>
         totalVolume s = foldl fadd (Finite 0) (map (\<lambda>x. Finite (of_int (volume x))) stocks) \<and>
         totalTrades s = foldl fadd (Finite 0) (map (\<lambda>x. Finite (of_int (trade_count x))) stocks) \<and>
         avgPrice s = fdiv (foldl fadd (Finite 0) (map (\<lambda>x. Finite (current_price x)) stocks))
                        (Finite (of_nat (length stocks))) \<and>
         ((\<forall>x\<in>set stocks. 0 \<le> volume x) \<and> sum_list (map volume stocks) \<le> 2 ^ 53 \<longrightarrow>
            totalVolume s = Finite (of_int (sum_list (map volume stocks)))) \<and>
         ((\<forall>x\<in>set stocks. 0 \<le> trade_count x) \<and> sum_list (map trade_count stocks) \<le> 2 ^ 53 \<longrightarrow>
            totalTrades s = Finite (of_int (sum_list (map trade_count stocks)))) \<and>
         ((\<forall>k\<le>length stocks. is_double (sum_list (map current_price (take k stocks)))) \<longrightarrow>
            avgPrice s = to_double (sum_list (map current_price stocks) / of_nat (length stocks)))"
    if ne: "stocks \<noteq> []"
  proof -
    from stats_fields[OF ne] obtain s where s: "stats stocks = Some s"
      and v: "totalVolume s = foldl fadd (Finite 0) (map (\<lambda>x. Finite (of_int (volume x))) stocks)"
      and t: "totalTrades s = foldl fadd (Finite 0) (map (\<lambda>x. Finite (of_int (trade_count x))) stocks)"
      and p: "avgPrice s = fdiv (foldl fadd (Finite 0) (map (\<lambda>x. Finite (current_price x)) stocks))
                        (Finite (of_nat (length stocks)))"
      by blast
    have v': "totalVolume s = Finite (of_int (sum_list (map volume stocks)))"
      if "\<forall>x\<in>set stocks. 0 \<le> volume x" "sum_list (map volume stocks) \<le> 2 ^ 53"
      using integer_total_exact[of stocks volume, OF that] v by simp
    have t': "totalTrades s = Finite (of_int (sum_list (map trade_count stocks)))"
      if "\<forall>x\<in>set stocks. 0 \<le> trade_count x" "sum_list (map trade_count stocks) \<le> 2 ^ 53"
      using integer_total_exact[of stocks trade_count, OF that] t by simp
    have p': "avgPrice s = to_double (sum_list (map current_price stocks) / of_nat (length stocks))"
      if exact: "\<forall>k\<le>length stocks. is_double (sum_list (map current_price (take k stocks)))"
    proof -
      have "is_double (0 + sum_list (take k (map current_price stocks)))"
        if "k \<le> length (map current_price stocks)" for k
        using exact that by (simp add: take_map)
      from foldl_fadd_exact[of "map current_price stocks" 0, OF this]
      have "foldl fadd (Finite 0) (map (\<lambda>x. Finite (current_price x)) stocks)
          = Finite (sum_list (map current_price stocks))"
        by (simp add: comp_def)
      with p ne show ?thesis
        by (simp add: fdiv_count)
    qed
    from s v t p v' t' p' show ?thesis by blast
  qed
  from empty filled show ?thesis by blast
qed

text \<open>
  The figures are not always the exact sum and the exact mean. For the two prices that are
  the doubles of 0.1 and 0.2 the code returns 0.15000000000000002, which is not their mean;
  for the volumes \<^verbatim>\<open>2^53\<close>, 1 and 1 it returns \<^verbatim>\<open>2^53\<close>, which is not their sum.
\<close>

theorem mean_is_rounded:
  "(\<exists>s. stats [row ''AAA'' (3602879701896397 / 36028797018963968) 100 7,
               row ''BBB'' (3602879701896397 / 18014398509481984) 400 7] = Some s \<and>
        avgPrice s = Finite (1351079888211149 / 9007199254740992) \<and>
        avgPrice s \<noteq> Finite (sum_list (map current_price
            [row ''AAA'' (3602879701896397 / 36028797018963968) 100 7,
             row ''BBB'' (3602879701896397 / 18014398509481984) 400 7]) / 2)) \<and>
   (\<exists>s. stats [row ''AAA'' 10 (2 ^ 53) 7, row ''BBB'' 20 1 7, row ''CCC'' 30 1 7] = Some s \<and>
        totalVolume s = Finite (2 ^ 53) \<and>
        totalVolume s \<noteq> Finite (of_int (sum_list (map volume
            [row ''AAA'' 10 (2 ^ 53) 7, row ''BBB'' 20 1 7, row ''CCC'' 30 1 7]))))"
proof -
  let ?prices = "[row ''AAA'' (3602879701896397 / 36028797018963968) 100 7,
               row ''BBB'' (3602879701896397 / 18014398509481984) 400 7]"
  let ?volumes = "[row ''AAA'' 10 (2 ^ 53) 7, row ''BBB'' 20 1 7, row ''CCC'' 30 1 7]"
  from stats_fields[of ?prices] obtain s where s: "stats ?prices = Some s"
    and "avgPrice s = fdiv (foldl fadd (Finite 0) (map (\<lambda>x. Finite (current_price x)) ?prices))
                        (Finite (of_nat (length ?prices)))"
    by blast
  then have a: "avgPrice s = Finite (1351079888211149 / 9007199254740992)"
    by (simp add: row_def double_eval)
  have "sum_list (map current_price ?prices) / 2 \<noteq> 1351079888211149 / 9007199254740992"
    by (simp add: row_def)
  with a have a': "avgPrice s \<noteq> Finite (sum_list (map current_price ?prices) / 2)"
    by simp
  from stats_fields[of ?volumes] obtain u where u: "stats ?volumes = Some u"
    and "totalVolume u = foldl fadd (Finite 0) (map (\<lambda>x. Finite (of_int (volume x))) ?volumes)"
    by blast
  then have b: "totalVolume u = Finite (2 ^ 53)"
    by (simp add: row_def double_eval)
  have "(of_int (sum_list (map volume ?volumes)) :: rat) \<noteq> 2 ^ 53"
    by (simp add: row_def)
  with b have b': "totalVolume u \<noteq> Finite (of_int (sum_list (map volume ?volumes)))"
    by simp
  from s a a' u b b' show ?thesis by blast
qed


text \<open>
  At a concrete input: three rows with the prices 1, 1 and 2, whose mean 4/3 is rounded.
\<close>

theorem stats_guard_and_double_totals_witness:
  "stats [] = None \<and>
   (\<exists>s. stats [row ''AAA'' 1 100 7, row ''BBB'' 1 400 7, row ''CCC'' 2 50 9] = Some s \<and>
        totalVolume s = Finite 550 \<and> totalTrades s = Finite 23 \<and>
        avgPrice s = Finite (6004799503160661 / 4503599627370496))"
proof -
  let ?stocks = "[row ''AAA'' 1 100 7, row ''BBB'' 1 400 7, row ''CCC'' 2 50 9]"
  have exact: "\<forall>k\<le>length ?stocks. is_double (sum_list (map current_price (take k ?stocks)))"
  proof (intro allI impI)
    fix k assume "k \<le> length ?stocks"
    then consider "k = 0" | "k = 1" | "k = 2" | "k = 3"
      by simp linarith
    then show "is_double (sum_list (map current_price (take k ?stocks)))"
      by cases (simp_all add: row_def is_double_def double_eval)
  qed
  have volumes: "(\<forall>x\<in>set ?stocks. 0 \<le> volume x) \<and> sum_list (map volume ?stocks) \<le> 2 ^ 53"
    and trades: "(\<forall>x\<in>set ?stocks. 0 \<le> trade_count x) \<and> sum_list (map trade_count ?stocks) \<le> 2 ^ 53"
    by (simp_all add: row_def)
  from stats_guard_and_double_totals[of ?stocks] exact volumes trades
  obtain s where s: "stats ?stocks = Some s"
    and v: "totalVolume s = Finite (of_int (sum_list (map volume ?stocks)))"
    and t: "totalTrades s = Finite (of_int (sum_list (map trade_count ?stocks)))"
    and p: "avgPrice s = to_double (sum_list (map current_price ?stocks) / of_nat (length ?stocks))"
    by blast
  from v have "totalVolume s = Finite 550" by (simp add: row_def)
  moreover from t have "totalTrades s = Finite 23" by (simp add: row_def)
  moreover from p have "avgPrice s = Finite (6004799503160661 / 4503599627370496)"
    by (simp add: row_def double_eval)
  moreover have "stats [] = None"
    using stats_guard_and_double_totals[of ?stocks] by blast
  ultimately show ?thesis
    using s by blast
qed

text \<open>The whole object at three rows, with the four lists.\<close>

lemma stats_example:
  "stats [(row ''AAA'' 10 100 7)\<lparr>percent_change := 5\<rparr>, (row ''BBB'' 20 400 7)\<lparr>percent_change := - 3\<rparr>,
          (row ''CCC'' 30 50 9)\<lparr>percent_change := 1\<rparr>]
   = Some \<lparr>totalVolume = Finite 550, totalTrades = Finite 23, avgPrice = Finite 20,
       marketTrend = \<lparr>gainers = 2, losers = 1\<rparr>,
       topGainers = [(''AAA'', 5, 10), (''CCC'', 1, 30), (''BBB'', - 3, 20)],
       topLosers = [(''BBB'', - 3, 20), (''CCC'', 1, 30), (''AAA'', 5, 10)],
       mostActiveVolume = [(''BBB'', - 3, 400), (''AAA'', 5, 100), (''CCC'', 1, 50)],
       mostActiveTrades = [(''CCC'', 1, 9), (''AAA'', 5, 7), (''BBB'', - 3, 7)]\<rparr>"
  by (simp add: stats_def formatStockList_def array_sort_def array_slice_def relative_index_def
      fsub_def row_def double_eval)

end
